theory Spec2Isabelle
  imports Main "HOL-Library.Word"
begin

section \<open>The SWD port lock (source/daplink/interface/swd\_lock.c)\<close>

subsection \<open>C strings\<close>

text \<open>
  A \<^verbatim>\<open>const char *\<close> argument is modelled by the list of characters stored at the
  pointer. Reading at or past the end of the list yields the terminator: the literal
  \<open>''abc''\<close> stands for the bytes \<^verbatim>\<open>a b c \0 \0 ...\<close>, and a list may also
  contain a terminator followed by further bytes.
\<close>

definition NUL :: char where
  "NUL = CHR 0x00"

definition char_at :: "string \<Rightarrow> nat \<Rightarrow> char" where
  "char_at s i = (if i < length s then s ! i else NUL)"

text \<open>
  \<^verbatim>\<open>strncmp(s1, s2, n)\<close>: compares at most \<open>n\<close> characters, as unsigned bytes, and stops
  after a common terminator.
\<close>

fun strncmp :: "string \<Rightarrow> string \<Rightarrow> nat \<Rightarrow> int" where
  "strncmp s1 s2 0 = 0"
| "strncmp s1 s2 (Suc n) =
     (let c1 = char_at s1 0; c2 = char_at s2 0
      in if c1 \<noteq> c2 then int (of_char c1) - int (of_char c2)
         else if c1 = NUL then 0
         else strncmp (tl s1) (tl s2) n)"

text \<open>\<^verbatim>\<open>memcpy(dst, src, n)\<close> on a character buffer whose source is a C string argument.\<close>

definition memcpy_str :: "string \<Rightarrow> nat \<Rightarrow> string" where
  "memcpy_str src n = map (char_at src) [0..<n]"

text \<open>The string a buffer holds: its characters up to the first terminator.\<close>

definition cstr :: "string \<Rightarrow> string" where
  "cstr s = takeWhile (\<lambda>c. c \<noteq> NUL) s"

subsection \<open>State\<close>

text \<open>
  \<^verbatim>\<open>static OS_MUT swd_mutex; static char swd_owner[SWD_OWNER_NAME_LENGTH];\<close>
  The constant \<^verbatim>\<open>SWD_OWNER_NAME_LENGTH\<close> is declared in a header that is not among the
  sources; it is the length of the list \<open>swd_owner\<close>, so \<^verbatim>\<open>sizeof(swd_owner)\<close> is
  \<open>length (swd_owner st)\<close>. The mutex is abstracted to whether it has been initialised.
  \<^verbatim>\<open>util_assert\<close> is not among the sources either: a failed assertion is counted in
  \<open>swd_asserts\<close> and control continues with the statement that follows it, as the
  \<^verbatim>\<open>return 0\<close> after each \<^verbatim>\<open>util_assert(0)\<close> of the file expects.
\<close>

record swd_state =
  swd_owner :: string
  swd_mutex :: bool
  swd_asserts :: nat

subsection \<open>Operations\<close>

text \<open>\<^verbatim>\<open>swd_is_locked\<close> (lines 55-58).\<close>

definition swd_is_locked :: "swd_state \<Rightarrow> 8 word" where
  "swd_is_locked st = (if char_at (swd_owner st) 0 = NUL then 0 else 1)"

text \<open>\<^verbatim>\<open>swd_is_locked_owner\<close> (lines 65-71).\<close>

definition swd_is_locked_owner :: "swd_state \<Rightarrow> string \<Rightarrow> 8 word" where
  "swd_is_locked_owner st owner =
     (if strncmp (swd_owner st) owner (length (swd_owner st)) = 0
         \<or> char_at (swd_owner st) 0 = NUL
      then 1 else 0)"

text \<open>
  \<^verbatim>\<open>swd_lock_owner\<close> (lines 32-44). The call on line 34 is spelled
  \<^verbatim>\<open>swd_is_locked_by_owner\<close>; the only owner query the file defines is
  \<^verbatim>\<open>swd_is_locked_owner\<close>, and the call is read as that function. Line 35 has no
  opening brace, so by the C grammar \<^verbatim>\<open>if (!swd_is_locked())\<close> governs only the statement
  on line 36, which initialises the mutex. Lines 37-40 therefore run whenever line 34
  falls through: the owner is copied into the buffer and 1 is returned. The brace on
  line 41 closes the function; \<^verbatim>\<open>util_assert(0); return 0;\<close> on lines 42-43 lie outside
  it and are never executed.
\<close>

definition swd_lock_owner :: "swd_state \<Rightarrow> string \<Rightarrow> 8 word \<times> swd_state" where
  "swd_lock_owner st owner =
     (if swd_is_locked_owner st owner \<noteq> 0 then (1, st)
      else
        (1, st\<lparr>swd_mutex := (swd_is_locked st = 0 \<or> swd_mutex st),
                swd_owner := memcpy_str owner (length (swd_owner st))\<rparr>))"

text \<open>\<^verbatim>\<open>swd_unlock\<close> (lines 77-81).\<close>

definition swd_unlock :: "swd_state \<Rightarrow> 8 word \<times> swd_state" where
  "swd_unlock st = (1, st\<lparr>swd_owner := (swd_owner st)[0 := NUL]\<rparr>)"

text \<open>\<^verbatim>\<open>swd_unlock_owner\<close> (lines 88-96).\<close>

definition swd_unlock_owner :: "swd_state \<Rightarrow> string \<Rightarrow> 8 word \<times> swd_state" where
  "swd_unlock_owner st owner =
     (if strncmp (swd_owner st) owner (length (swd_owner st)) = 0
      then (1, snd (swd_unlock st))
      else (0, st\<lparr>swd_asserts := Suc (swd_asserts st)\<rparr>))"

text \<open>The recorded holder, as a string; the port is unheld when it is empty.\<close>

definition swd_holder :: "swd_state \<Rightarrow> string" where
  "swd_holder st = cstr (swd_owner st)"

subsection \<open>Concrete port-lock states\<close>

text \<open>A four-byte owner buffer, zeroed as a C static is at start-up, and one holding \<open>x\<close>.\<close>

definition swd_unheld :: swd_state where
  "swd_unheld = \<lparr>swd_owner = [NUL, NUL, NUL, NUL], swd_mutex = False, swd_asserts = 0\<rparr>"

definition swd_held_x :: swd_state where
  "swd_held_x = \<lparr>swd_owner = [CHR ''x'', NUL, NUL, NUL], swd_mutex = True, swd_asserts = 0\<rparr>"

section \<open>The HID packet ring and worker (source/daplink/cmsis-dap/usbd\_user\_hid.c)\<close>

subsection \<open>Data\<close>

type_synonym byte = "8 word"

type_synonym packet = "byte list"

text \<open>
  The file calls collaborators that live outside it. Each call is recorded, in order, in
  the trace \<open>events\<close> of the state: \<^verbatim>\<open>DAP_ExecuteCommand\<close> with the request it was given,
  \<^verbatim>\<open>main_hid_send_event\<close>, \<^verbatim>\<open>usbd_hid_get_report_trigger\<close> with the bytes it transmits,
  \<^verbatim>\<open>main_blink_hid_led(MAIN_LED_OFF)\<close>, and \<^verbatim>\<open>util_assert\<close> with a false condition.
  As in the port lock, control continues after a failed assertion with the statement
  that follows it in the text.
\<close>

datatype hid_event =
    Execute_Command packet
  | Send_Event
  | Report_Trigger packet
  | Blink_Led_Off
  | Assert_Failed

text \<open>
  The constants of \<^verbatim>\<open>DAP_config.h\<close> and \<^verbatim>\<open>DAP.h\<close>, the identity
  \<^verbatim>\<open>DAP_LOCK_OPERATION_HID_DEBUG\<close> and the command handler \<^verbatim>\<open>DAP_ExecuteCommand\<close> are
  not among the sources; they are parameters of the model. The handler reads the request
  and writes its response into \<^verbatim>\<open>temp_buf\<close>: it maps the request and the old contents of
  \<^verbatim>\<open>temp_buf\<close> to the new contents, and touches neither the ring nor the session lock.
\<close>

record dap_config =
  DAP_PACKET_COUNT :: nat
  DAP_PACKET_SIZE :: nat
  ID_DAP_Info :: byte
  ID_DAP_Connect :: byte
  ID_DAP_Disconnect :: byte
  ID_DAP_TransferAbort :: byte
  DAP_LOCK_OPERATION_HID_DEBUG :: nat
  DAP_ExecuteCommand :: "packet \<Rightarrow> packet \<Rightarrow> packet"

text \<open>
  The arguments \<^verbatim>\<open>rtype\<close> and \<^verbatim>\<open>req\<close> are bytes compared with constants of the USB
  stack's headers; the datatypes name those constants and keep one more value for every
  other byte.
\<close>

datatype hid_report_type =
  HID_REPORT_INPUT | HID_REPORT_OUTPUT | HID_REPORT_FEATURE | HID_REPORT_OTHER

datatype hid_request =
  USBD_HID_REQ_EP_CTRL | USBD_HID_REQ_PERIOD_UPDATE | USBD_HID_REQ_EP_INT | USBD_HID_REQ_OTHER

text \<open>
  The file's statics (lines 46-64), the flag \<^verbatim>\<open>DAP_TransferAbort\<close>, the session lock
  behind \<^verbatim>\<open>dap_lock_operation\<close>, and the trace. The three semaphores are their token
  counts. The cursors are \<^verbatim>\<open>uint32_t\<close>; every assignment reduces them modulo
  \<^verbatim>\<open>DAP_PACKET_COUNT\<close>, so they are natural numbers below it and \<open>+ 1\<close> cannot wrap.
  The mutex \<^verbatim>\<open>hid_mutex\<close> only delimits regions that the model runs as single steps.
\<close>

record hid_state =
  temp_buf :: packet
  USB_Request :: "packet list"
  free_sem :: nat
  proc_sem :: nat
  send_sem :: nat
  recv_idx :: nat
  proc_idx :: nat
  send_idx :: nat
  USB_ResponseIdle :: byte
  DAP_TransferAbort :: byte
  dap_lock :: "nat option"
  events :: "hid_event list"

subsection \<open>Collaborators\<close>

text \<open>\<^verbatim>\<open>memcpy(dst, src, n)\<close> on byte buffers, for \<open>n\<close> within both.\<close>

definition memcpy :: "packet \<Rightarrow> packet \<Rightarrow> nat \<Rightarrow> packet" where
  "memcpy dst src n = take n src @ drop n dst"

text \<open>
  Modelled from the spec: the semaphore primitives \<^verbatim>\<open>os_sem_wait\<close> and \<^verbatim>\<open>os_sem_send\<close>
  of the RTOS are missing from the sources. The spec describes "a counting primitive
  offering non-blocking try-acquire, blocking acquire, and release with identical
  counting semantics". \<open>os_sem_wait_0\<close> is the try-acquire (timeout 0): it reports
  whether a token was taken, and the count left.
\<close>

definition os_sem_wait_0 :: "nat \<Rightarrow> bool \<times> nat" where
  "os_sem_wait_0 n = (if 0 < n then (True, n - 1) else (False, n))"

definition os_sem_send :: "nat \<Rightarrow> nat" where
  "os_sem_send n = n + 1"

text \<open>
  Modelled from the spec: the session lock functions \<^verbatim>\<open>dap_lock_operation\<close>,
  \<^verbatim>\<open>dap_lock_verify_operation\<close> and \<^verbatim>\<open>dap_unlock_operation\<close> are missing from the
  sources. The spec's Session Lock has state unheld or held(identity);
  "try\_acquire(identity): succeeds if unheld or already held by identity; otherwise
  fails, state unchanged", "verify(identity): true iff held by identity",
  "release(): unconditional transition to unheld; idempotent".
\<close>

definition dap_lock_operation :: "nat \<Rightarrow> nat option \<Rightarrow> bool \<times> nat option" where
  "dap_lock_operation i l =
     (case l of None \<Rightarrow> (True, Some i) | Some h \<Rightarrow> (h = i, l))"

definition dap_lock_verify_operation :: "nat \<Rightarrow> nat option \<Rightarrow> bool" where
  "dap_lock_verify_operation i l = (l = Some i)"

definition dap_unlock_operation :: "nat \<Rightarrow> nat option \<Rightarrow> nat option" where
  "dap_unlock_operation i l = None"

subsection \<open>Operations\<close>

text \<open>\<^verbatim>\<open>usbd_hid_init\<close> (lines 67-77).\<close>

definition usbd_hid_init :: "dap_config \<Rightarrow> hid_state \<Rightarrow> hid_state" where
  "usbd_hid_init cfg st =
     st\<lparr>recv_idx := 0, proc_idx := 0, send_idx := 0, USB_ResponseIdle := 1,
        free_sem := DAP_PACKET_COUNT cfg, proc_sem := 0, send_sem := 0\<rparr>"

text \<open>
  \<^verbatim>\<open>usbd_hid_get_report\<close> (lines 80-113): the return value, the caller's buffer after
  the call, and the state.
\<close>

definition usbd_hid_get_report ::
  "dap_config \<Rightarrow> hid_report_type \<Rightarrow> byte \<Rightarrow> packet \<Rightarrow> hid_request \<Rightarrow> hid_state
     \<Rightarrow> int \<times> packet \<times> hid_state" where
  "usbd_hid_get_report cfg rtype rid buf req st =
     (case rtype of
        HID_REPORT_INPUT \<Rightarrow>
          (case req of
             USBD_HID_REQ_EP_INT \<Rightarrow>
               (case os_sem_wait_0 (send_sem st) of
                  (True, n) \<Rightarrow>
                    (int (DAP_PACKET_SIZE cfg),
                     memcpy buf (USB_Request st ! send_idx st) (DAP_PACKET_SIZE cfg),
                     st\<lparr>send_sem := n,
                        send_idx := (send_idx st + 1) mod DAP_PACKET_COUNT cfg,
                        free_sem := os_sem_send (free_sem st)\<rparr>)
                | (False, n) \<Rightarrow> (0, buf, st\<lparr>send_sem := n, USB_ResponseIdle := 1\<rparr>))
           | _ \<Rightarrow> (0, buf, st))
      | _ \<Rightarrow> (0, buf, st))"

text \<open>
  \<^verbatim>\<open>usbd_hid_set_report\<close> (lines 116-144). The pair \<^verbatim>\<open>buf\<close>, \<^verbatim>\<open>len\<close> is the list of the
  \<^verbatim>\<open>len\<close> bytes received. A report is at most \<^verbatim>\<open>USBD_HID_OUTREPORT_MAX_SZ\<close> bytes long,
  which lines 35-37 force to equal \<^verbatim>\<open>DAP_PACKET_SIZE\<close>, so the copy stays inside the slot.
  The source does not check the length: a longer report would be copied past the end
  of the slot, and the stored list is then longer than a slot. What is proved about a
  stored packet states the bound \<open>length buf \<le> DAP_PACKET_SIZE\<close>.
\<close>

definition usbd_hid_set_report ::
  "dap_config \<Rightarrow> hid_report_type \<Rightarrow> byte \<Rightarrow> packet \<Rightarrow> hid_request \<Rightarrow> hid_state \<Rightarrow> hid_state" where
  "usbd_hid_set_report cfg rtype rid buf req st =
     (case rtype of
        HID_REPORT_OUTPUT \<Rightarrow>
          (case buf of
             [] \<Rightarrow> st
           | b # bs \<Rightarrow>
               if b = ID_DAP_TransferAbort cfg then st\<lparr>DAP_TransferAbort := 1\<rparr>
               else
                 (case os_sem_wait_0 (free_sem st) of
                    (True, n) \<Rightarrow>
                      st\<lparr>free_sem := n,
                         USB_Request := (USB_Request st)
                           [recv_idx st := memcpy (USB_Request st ! recv_idx st) buf (length buf)],
                         recv_idx := (recv_idx st + 1) mod DAP_PACKET_COUNT cfg,
                         proc_sem := os_sem_send (proc_sem st)\<rparr>
                  | (False, n) \<Rightarrow> st\<lparr>free_sem := n, events := events st @ [Assert_Failed]\<rparr>))
      | _ \<Rightarrow> st)"

text \<open>\<^verbatim>\<open>hid_send_packet\<close> (lines 146-160).\<close>

definition hid_send_packet :: "dap_config \<Rightarrow> hid_state \<Rightarrow> hid_state" where
  "hid_send_packet cfg st =
     (case os_sem_wait_0 (send_sem st) of
        (ret, n) \<Rightarrow>
          st\<lparr>send_sem := n,
             events := events st @ (if ret then [] else [Assert_Failed])
                @ [Report_Trigger (take (DAP_PACKET_SIZE cfg) (USB_Request st ! send_idx st))],
             send_idx := (send_idx st + 1) mod DAP_PACKET_COUNT cfg,
             free_sem := os_sem_send (free_sem st)\<rparr>)"

text \<open>
  \<^verbatim>\<open>hid_process\<close> (lines 188-243), one iteration of its loop, in three parts. The
  \<^verbatim>\<open>switch\<close> on the command identifier (lines 194-219) yields \<^verbatim>\<open>run_command\<close> and the
  state; its case labels are distinct constants, and the model tests them in order.
\<close>

definition hid_dispatch :: "dap_config \<Rightarrow> hid_state \<Rightarrow> bool \<times> hid_state" where
  "hid_dispatch cfg st =
     (let cmd = USB_Request st ! proc_idx st ! 0
      in if cmd = ID_DAP_Info cfg then (True, st)
         else if cmd = ID_DAP_Connect cfg then
           (case dap_lock_operation (DAP_LOCK_OPERATION_HID_DEBUG cfg) (dap_lock st) of
              (True, l) \<Rightarrow> (True, st\<lparr>dap_lock := l\<rparr>)
            | (False, l) \<Rightarrow>
                (False,
                 st\<lparr>dap_lock := l,
                    USB_Request := (USB_Request st)
                      [proc_idx st := (USB_Request st ! proc_idx st)[1 := 0]],
                    proc_idx := (proc_idx st + 1) mod DAP_PACKET_COUNT cfg,
                    send_sem := os_sem_send (send_sem st)\<rparr>))
         else (dap_lock_verify_operation (DAP_LOCK_OPERATION_HID_DEBUG cfg) (dap_lock st), st))"

text \<open>The body of \<^verbatim>\<open>if (run_command)\<close> (lines 222-230).\<close>

definition hid_run_command :: "dap_config \<Rightarrow> hid_state \<Rightarrow> hid_state" where
  "hid_run_command cfg st =
     (let request = USB_Request st ! proc_idx st;
          response = DAP_ExecuteCommand cfg request (temp_buf st);
          st1 = st\<lparr>temp_buf := response,
                   events := events st @ [Execute_Command request],
                   USB_Request := (USB_Request st)
                     [proc_idx st := memcpy request response (DAP_PACKET_SIZE cfg)],
                   proc_idx := (proc_idx st + 1) mod DAP_PACKET_COUNT cfg,
                   send_sem := os_sem_send (send_sem st)\<rparr>
      in if ID_DAP_Disconnect cfg = USB_Request st1 ! proc_idx st1 ! 0
         then st1\<lparr>dap_lock :=
                    dap_unlock_operation (DAP_LOCK_OPERATION_HID_DEBUG cfg) (dap_lock st1)\<rparr>
         else st1)"

text \<open>The idle check and the status pulse (lines 233-241).\<close>

definition hid_notify :: "hid_state \<Rightarrow> hid_state" where
  "hid_notify st =
     (let st1 = (if USB_ResponseIdle st \<noteq> 0
                 then st\<lparr>events := events st @ [Send_Event], USB_ResponseIdle := 0\<rparr>
                 else st)
      in st1\<lparr>events := events st1 @ [Blink_Led_Off]\<rparr>)"

text \<open>
  One iteration. The wait on \<^verbatim>\<open>proc_sem\<close> (line 192) blocks while the count is zero:
  the result \<open>None\<close> says that the worker stays suspended there.
\<close>

definition hid_process_step :: "dap_config \<Rightarrow> hid_state \<Rightarrow> hid_state option" where
  "hid_process_step cfg st =
     (if proc_sem st = 0 then None
      else
        (case hid_dispatch cfg (st\<lparr>proc_sem := proc_sem st - 1\<rparr>) of
           (run_command, st1) \<Rightarrow>
             Some (hid_notify (if run_command then hid_run_command cfg st1 else st1))))"

subsection \<open>Runs of the system\<close>

text \<open>
  The callbacks run in interrupt context, the worker runs in its task, and other users of
  the session lock take and release it with identities of their own. A run interleaves
  these steps in any order. An iteration of the worker that finds \<open>proc_sem\<close> empty
  leaves the worker at its wait and the state as it is. \<^verbatim>\<open>hid_send_packet\<close> is to be
  called only when a reply is ready; the spec makes the call with nothing ready a fatal
  assertion, and \<open>hid_apply\<close> has no successor state for it: the run ends in the state it
  has reached.
\<close>

datatype hid_op =
    Set_Report hid_report_type byte packet hid_request
  | Get_Report hid_report_type byte packet hid_request
  | Send_Packet
  | Process
  | Lock_Other nat
  | Unlock_Other nat

definition hid_apply :: "dap_config \<Rightarrow> hid_op \<Rightarrow> hid_state \<Rightarrow> hid_state option" where
  "hid_apply cfg a st =
     (case a of
        Set_Report rtype rid buf req \<Rightarrow> Some (usbd_hid_set_report cfg rtype rid buf req st)
      | Get_Report rtype rid buf req \<Rightarrow> Some (snd (snd (usbd_hid_get_report cfg rtype rid buf req st)))
      | Send_Packet \<Rightarrow> if send_sem st = 0 then None else Some (hid_send_packet cfg st)
      | Process \<Rightarrow> (case hid_process_step cfg st of None \<Rightarrow> Some st | Some st' \<Rightarrow> Some st')
      | Lock_Other i \<Rightarrow> Some (st\<lparr>dap_lock := snd (dap_lock_operation i (dap_lock st))\<rparr>)
      | Unlock_Other i \<Rightarrow> Some (st\<lparr>dap_lock := dap_unlock_operation i (dap_lock st)\<rparr>))"

fun hid_run :: "dap_config \<Rightarrow> hid_op list \<Rightarrow> hid_state \<Rightarrow> hid_state" where
  "hid_run cfg [] st = st"
| "hid_run cfg (a # ops) st =
     (case hid_apply cfg a st of None \<Rightarrow> st | Some st' \<Rightarrow> hid_run cfg ops st')"

text \<open>Steps of other users of the session lock keep to identities other than the transport's.\<close>

fun foreign_op :: "dap_config \<Rightarrow> hid_op \<Rightarrow> bool" where
  "foreign_op cfg (Lock_Other i) = (i \<noteq> DAP_LOCK_OPERATION_HID_DEBUG cfg)"
| "foreign_op cfg _ = True"

subsection \<open>Views used by the properties\<close>

text \<open>The sum of the three flow-control counters.\<close>

definition ring_sum :: "hid_state \<Rightarrow> nat" where
  "ring_sum st = free_sem st + proc_sem st + send_sem st"

text \<open>The command identifier of the packet at the process cursor.\<close>

definition proc_cmd :: "hid_state \<Rightarrow> byte" where
  "proc_cmd st = USB_Request st ! proc_idx st ! 0"

text \<open>
  The requests received and not yet completed by the worker, oldest first: the slots
  from the process cursor up to the receive cursor, around the ring. Their number is
  what the free tokens and the reply tokens leave of the ring; it does not depend on
  \<open>proc_sem\<close>, so a request the worker has discarded without completing it is still
  counted, at the head.
\<close>

definition uncompleted_requests :: "dap_config \<Rightarrow> hid_state \<Rightarrow> packet list" where
  "uncompleted_requests cfg st =
     map (\<lambda>k. USB_Request st ! ((proc_idx st + k) mod DAP_PACKET_COUNT cfg))
       [0..<DAP_PACKET_COUNT cfg - (free_sem st + send_sem st)]"

text \<open>The requests the handler has been called with, in order.\<close>

fun handler_calls :: "hid_event list \<Rightarrow> packet list" where
  "handler_calls [] = []"
| "handler_calls (Execute_Command p # es) = p # handler_calls es"
| "handler_calls (_ # es) = handler_calls es"

text \<open>
  The cursor discipline of the ring: the slots from the receive cursor on that are free
  or hold a reply end at the process cursor, and the counters never add up to more than
  the number of slots.
\<close>

definition ring_cursors_ok :: "dap_config \<Rightarrow> hid_state \<Rightarrow> bool" where
  "ring_cursors_ok cfg st \<longleftrightarrow>
     length (USB_Request st) = DAP_PACKET_COUNT cfg \<and>
     proc_idx st < DAP_PACKET_COUNT cfg \<and>
     (recv_idx st + free_sem st + send_sem st) mod DAP_PACKET_COUNT cfg = proc_idx st \<and>
     free_sem st + proc_sem st + send_sem st \<le> DAP_PACKET_COUNT cfg"

text \<open>The same while the worker holds the token it has taken from \<open>proc_sem\<close>.\<close>

definition ring_in_flight :: "dap_config \<Rightarrow> hid_state \<Rightarrow> bool" where
  "ring_in_flight cfg st \<longleftrightarrow>
     length (USB_Request st) = DAP_PACKET_COUNT cfg \<and>
     proc_idx st < DAP_PACKET_COUNT cfg \<and>
     (recv_idx st + free_sem st + send_sem st) mod DAP_PACKET_COUNT cfg = proc_idx st \<and>
     free_sem st + proc_sem st + send_sem st < DAP_PACKET_COUNT cfg"

text \<open>
  The shape of the buffers: every slot and the scratch buffer have \<^verbatim>\<open>DAP_PACKET_SIZE\<close>
  bytes, as their C types say.
\<close>

definition ring_slots_ok :: "dap_config \<Rightarrow> hid_state \<Rightarrow> bool" where
  "ring_slots_ok cfg st \<longleftrightarrow>
     list_all (\<lambda>p. length p = DAP_PACKET_SIZE cfg) (USB_Request st) \<and>
     length (temp_buf st) = DAP_PACKET_SIZE cfg"

text \<open>
  The handler fills the scratch buffer it is given: from a request and a scratch buffer
  of \<^verbatim>\<open>DAP_PACKET_SIZE\<close> bytes it leaves a scratch buffer of that size.
\<close>

definition handler_keeps_size :: "dap_config \<Rightarrow> bool" where
  "handler_keeps_size cfg \<longleftrightarrow>
     (\<forall>request response.
        length request = DAP_PACKET_SIZE cfg \<longrightarrow> length response = DAP_PACKET_SIZE cfg \<longrightarrow>
        length (DAP_ExecuteCommand cfg request response) = DAP_PACKET_SIZE cfg)"

text \<open>A report handed to \<^verbatim>\<open>usbd_hid_set_report\<close> has at most \<^verbatim>\<open>DAP_PACKET_SIZE\<close> bytes.\<close>

fun report_fits :: "dap_config \<Rightarrow> hid_op \<Rightarrow> bool" where
  "report_fits cfg (Set_Report rtype rid buf req) = (length buf \<le> DAP_PACKET_SIZE cfg)"
| "report_fits cfg _ = True"

text \<open>
  What stays true, relative to the state \<open>st0\<close> in which a packet is about to be
  discarded, for as long as the discarded packet sits at the process cursor.
\<close>

definition hid_stuck :: "dap_config \<Rightarrow> hid_state \<Rightarrow> hid_state \<Rightarrow> bool" where
  "hid_stuck cfg st0 st \<longleftrightarrow>
     length (USB_Request st) = DAP_PACKET_COUNT cfg \<and>
     proc_idx st = proc_idx st0 \<and>
     proc_idx st0 < DAP_PACKET_COUNT cfg \<and>
     USB_Request st ! proc_idx st0 = USB_Request st0 ! proc_idx st0 \<and>
     temp_buf st = temp_buf st0 \<and>
     handler_calls (events st) = handler_calls (events st0) \<and>
     send_sem st \<le> send_sem st0 \<and>
     dap_lock st \<noteq> Some (DAP_LOCK_OPERATION_HID_DEBUG cfg) \<and>
     (recv_idx st + free_sem st + send_sem st) mod DAP_PACKET_COUNT cfg = proc_idx st0 \<and>
     free_sem st + send_sem st < DAP_PACKET_COUNT cfg"

subsection \<open>A concrete configuration and concrete states\<close>

text \<open>
  Four slots of four bytes; the identifiers are those CMSIS-DAP assigns (Info 0,
  Connect 2, Disconnect 3, TransferAbort 7); the handler answers with the command
  identifier followed by what the scratch buffer held.
\<close>

definition cfg4 :: dap_config where
  "cfg4 = \<lparr>DAP_PACKET_COUNT = 4, DAP_PACKET_SIZE = 4,
           ID_DAP_Info = 0, ID_DAP_Connect = 2, ID_DAP_Disconnect = 3,
           ID_DAP_TransferAbort = 7, DAP_LOCK_OPERATION_HID_DEBUG = 1,
           DAP_ExecuteCommand = (\<lambda>request response. take 1 request @ drop 1 response)\<rparr>"

text \<open>The state after \<^verbatim>\<open>usbd_hid_init\<close> on zeroed statics, with the session lock \<open>l\<close>.\<close>

definition hid_boot :: "nat option \<Rightarrow> hid_state" where
  "hid_boot l =
     \<lparr>temp_buf = [0, 0, 0, 0],
      USB_Request = [[0, 0, 0, 0], [0, 0, 0, 0], [0, 0, 0, 0], [0, 0, 0, 0]],
      free_sem = 4, proc_sem = 0, send_sem = 0,
      recv_idx = 0, proc_idx = 0, send_idx = 0,
      USB_ResponseIdle = 1, DAP_TransferAbort = 0,
      dap_lock = l, events = []\<rparr>"

text \<open>The state after one packet \<open>p\<close> has been received on top of \<open>hid_boot l\<close>.\<close>

definition hid_received :: "nat option \<Rightarrow> packet \<Rightarrow> hid_state" where
  "hid_received l p =
     \<lparr>temp_buf = [0, 0, 0, 0],
      USB_Request = [p, [0, 0, 0, 0], [0, 0, 0, 0], [0, 0, 0, 0]],
      free_sem = 3, proc_sem = 1, send_sem = 0,
      recv_idx = 1, proc_idx = 0, send_idx = 0,
      USB_ResponseIdle = 1, DAP_TransferAbort = 0,
      dap_lock = l, events = []\<rparr>"

text \<open>A full ring: one reply waiting to be sent in slot 0, three requests waiting behind it.\<close>

definition hid_full :: hid_state where
  "hid_full =
     \<lparr>temp_buf = [0, 0, 0, 0],
      USB_Request = [[0, 1, 0, 0], [0, 2, 0, 0], [0, 3, 0, 0], [0, 4, 0, 0]],
      free_sem = 0, proc_sem = 3, send_sem = 1,
      recv_idx = 0, proc_idx = 1, send_idx = 0,
      USB_ResponseIdle = 0, DAP_TransferAbort = 0,
      dap_lock = None, events = []\<rparr>"

text \<open>
  The state after three Info packets and a Disconnect have been received with the
  session lock free and the worker has run four iterations: three replies are ready and
  the Disconnect, discarded, is still at the process cursor.
\<close>

definition hid_leaked :: hid_state where
  "hid_leaked =
     \<lparr>temp_buf = [0, 0, 0, 0],
      USB_Request = [[0, 0, 0, 0], [0, 0, 0, 0], [0, 0, 0, 0], [3, 0, 0, 0]],
      free_sem = 0, proc_sem = 0, send_sem = 3,
      recv_idx = 0, proc_idx = 3, send_idx = 0,
      USB_ResponseIdle = 0, DAP_TransferAbort = 0,
      dap_lock = None,
      events = [Execute_Command [0, 1, 0, 0], Send_Event, Blink_Led_Off,
                Execute_Command [0, 2, 0, 0], Blink_Led_Off,
                Execute_Command [0, 3, 0, 0], Blink_Led_Off, Blink_Led_Off]\<rparr>"

section \<open>Properties of the port lock\<close>

lemma strncmp_zero_iff:
  "strncmp s1 s2 n = 0 \<longleftrightarrow> cstr (take n s1) = cstr (take n s2)"
proof (induction n arbitrary: s1 s2)
  case 0
  then show ?case by simp
next
  case (Suc n)
  show ?case
  proof (cases s1)
    case Nil
    then show ?thesis
      by (cases s2) (auto simp: char_at_def cstr_def Let_def)
  next
    case (Cons a as)
    then show ?thesis using Suc.IH [of as "tl s2"]
      by (cases s2) (auto simp: char_at_def cstr_def Let_def)
  qed
qed

lemma cstr_no_NUL: "NUL \<notin> set s \<Longrightarrow> cstr s = s"
  by (auto simp: cstr_def)

lemma cstr_bounded: "length (cstr s) \<le> length s"
  by (simp add: cstr_def length_takeWhile_le)

lemma NUL_notin_cstr: "NUL \<notin> set (cstr s)"
  by (auto simp: cstr_def dest: set_takeWhileD)

lemma cstr_Nil_iff: "cstr s = [] \<longleftrightarrow> char_at s 0 = NUL"
  by (cases s) (auto simp: cstr_def char_at_def)

lemma swd_is_locked_iff: "swd_is_locked st = 0 \<longleftrightarrow> swd_holder st = []"
  by (simp add: swd_is_locked_def swd_holder_def cstr_Nil_iff)

lemma swd_is_locked_owner_iff:
  "swd_is_locked_owner st ow \<noteq> 0 \<longleftrightarrow>
     swd_holder st = cstr (take (length (swd_owner st)) ow) \<or> swd_holder st = []"
  by (simp add: swd_is_locked_owner_def strncmp_zero_iff swd_holder_def cstr_Nil_iff)

text \<open>
  Claim C9. For every owner argument, \<^verbatim>\<open>swd_is_locked_owner\<close> returns 1 whenever the port
  is unheld (the holder string is empty), and also when the argument is the recorded
  holder; it returns 0 only when the port is held and the holder is a different string.
\<close>

theorem swd_is_locked_owner_free_port:
  "(swd_is_locked st = 0 \<longrightarrow> swd_is_locked_owner st ow = 1) \<and>
   (swd_holder st = ow \<longrightarrow> swd_is_locked_owner st ow = 1) \<and>
   (swd_is_locked_owner st ow = 0 \<longrightarrow> swd_is_locked st = 1 \<and> swd_holder st \<noteq> ow)"
proof -
  have fits: "cstr (take (length (swd_owner st)) ow) = ow" if h: "swd_holder st = ow"
  proof -
    have "NUL \<notin> set ow" and "length ow \<le> length (swd_owner st)"
      using h NUL_notin_cstr [of "swd_owner st"] cstr_bounded [of "swd_owner st"]
      by (auto simp: swd_holder_def)
    then show ?thesis
      by (simp add: cstr_no_NUL)
  qed
  have one: "swd_is_locked_owner st ow = 1" if "swd_is_locked_owner st ow \<noteq> 0"
    using that by (simp add: swd_is_locked_owner_def split: if_splits)
  have c1: "swd_is_locked_owner st ow = 1" if "swd_is_locked st = 0"
    using that one by (simp add: swd_is_locked_iff swd_is_locked_owner_iff)
  have c2: "swd_is_locked_owner st ow = 1" if "swd_holder st = ow"
    using that fits one by (simp add: swd_is_locked_owner_iff)
  have c3: "swd_is_locked st = 1 \<and> swd_holder st \<noteq> ow" if z: "swd_is_locked_owner st ow = 0"
  proof -
    have "swd_is_locked_owner st ow \<noteq> 1"
      using z by simp
    with c1 c2 have "swd_is_locked st \<noteq> 0" and "swd_holder st \<noteq> ow"
      by auto
    then show ?thesis
      by (simp add: swd_is_locked_def split: if_splits)
  qed
  from c1 c2 c3 show ?thesis
    by blast
qed

theorem swd_is_locked_owner_free_port_witness:
  "swd_is_locked swd_unheld = 0 \<and> swd_is_locked_owner swd_unheld ''x'' = 1 \<and>
   swd_holder swd_held_x = ''x'' \<and> swd_is_locked_owner swd_held_x ''x'' = 1 \<and>
   swd_is_locked_owner swd_held_x ''y'' = 0 \<and> swd_is_locked swd_held_x = 1 \<and>
   swd_holder swd_held_x \<noteq> ''y''"
proof -
  have u: "swd_is_locked swd_unheld = 0"
    by (simp add: swd_is_locked_def swd_unheld_def char_at_def)
  have h: "swd_holder swd_held_x = ''x''"
    by (simp add: swd_holder_def swd_held_x_def cstr_def NUL_def)
  have z: "swd_is_locked_owner swd_held_x ''y'' = 0"
    by (simp add: swd_is_locked_owner_def swd_held_x_def char_at_def NUL_def)
  from u swd_is_locked_owner_free_port [of swd_unheld "''x''"]
  have p1: "swd_is_locked_owner swd_unheld ''x'' = 1"
    by blast
  from h swd_is_locked_owner_free_port [of swd_held_x "''x''"]
  have p2: "swd_is_locked_owner swd_held_x ''x'' = 1"
    by blast
  from z swd_is_locked_owner_free_port [of swd_held_x "''y''"]
  have p3: "swd_is_locked swd_held_x = 1 \<and> swd_holder swd_held_x \<noteq> ''y''"
    by blast
  from u p1 h p2 z p3 show ?thesis
    by blast
qed



text \<open>On an unheld port the lock succeeds and changes nothing, whatever the owner.\<close>

lemma swd_lock_owner_unheld_noop:
  "swd_is_locked st = 0 \<Longrightarrow> swd_lock_owner st ow = (1, st)"
  by (simp add: swd_lock_owner_def swd_is_locked_owner_def swd_is_locked_def split: if_splits)

text \<open>
  Claim C2, at a concrete input. On the unheld port \<^verbatim>\<open>swd_lock_owner\<close> called with \<open>x\<close>
  returns 1 through the early return on line 34 and records nothing: the state is the
  one before the call, \<^verbatim>\<open>swd_is_locked\<close> still returns 0, the holder string is still
  empty, and a lock by the different owner \<open>y\<close> afterwards returns 1 as well.
\<close>

theorem swd_lock_owner_unheld_records_nothing:
  "swd_is_locked swd_unheld = 0 \<and>
   swd_lock_owner swd_unheld ''x'' = (1, swd_unheld) \<and>
   swd_is_locked (snd (swd_lock_owner swd_unheld ''x'')) = 0 \<and>
   swd_holder (snd (swd_lock_owner swd_unheld ''x'')) = [] \<and>
   fst (swd_lock_owner (snd (swd_lock_owner swd_unheld ''x'')) ''y'') = 1"
  by (simp add: swd_lock_owner_def swd_is_locked_owner_def swd_is_locked_def
      swd_holder_def cstr_def swd_unheld_def char_at_def)

section \<open>Properties of the packet ring and the worker\<close>

lemmas hid_defs = hid_process_step_def hid_dispatch_def hid_run_command_def hid_notify_def
  dap_lock_operation_def dap_lock_verify_operation_def dap_unlock_operation_def
  os_sem_send_def os_sem_wait_0_def memcpy_def Let_def

lemma hid_notify_fields:
  "temp_buf (hid_notify st) = temp_buf st"
  "USB_Request (hid_notify st) = USB_Request st"
  "free_sem (hid_notify st) = free_sem st"
  "proc_sem (hid_notify st) = proc_sem st"
  "send_sem (hid_notify st) = send_sem st"
  "recv_idx (hid_notify st) = recv_idx st"
  "proc_idx (hid_notify st) = proc_idx st"
  "send_idx (hid_notify st) = send_idx st"
  "DAP_TransferAbort (hid_notify st) = DAP_TransferAbort st"
  "dap_lock (hid_notify st) = dap_lock st"
  by (simp_all add: hid_notify_def Let_def)

lemma hid_notify_idle:
  "USB_ResponseIdle (hid_notify st) = 0"
  by (simp add: hid_notify_def Let_def)

lemma hid_notify_events:
  "events (hid_notify st) =
     events st @ (if USB_ResponseIdle st \<noteq> 0 then [Send_Event] else []) @ [Blink_Led_Off]"
  by (simp add: hid_notify_def Let_def)

lemma hid_process_step_defined:
  "(\<exists>st'. hid_process_step cfg st = Some st') \<longleftrightarrow> 0 < proc_sem st"
  by (cases "hid_dispatch cfg (st\<lparr>proc_sem := proc_sem st - 1\<rparr>)")
    (simp add: hid_process_step_def)

lemma hid_process_step_discard:
  assumes "0 < proc_sem st"
    and "proc_cmd st \<noteq> ID_DAP_Info cfg" and "proc_cmd st \<noteq> ID_DAP_Connect cfg"
    and "dap_lock st \<noteq> Some (DAP_LOCK_OPERATION_HID_DEBUG cfg)"
  shows "hid_process_step cfg st = Some (hid_notify (st\<lparr>proc_sem := proc_sem st - 1\<rparr>))"
  using assms
  by (simp add: hid_process_step_def hid_dispatch_def proc_cmd_def
      dap_lock_verify_operation_def Let_def)

lemma hid_process_step_connect_refused:
  assumes "0 < proc_sem st"
    and "proc_cmd st = ID_DAP_Connect cfg" and "ID_DAP_Connect cfg \<noteq> ID_DAP_Info cfg"
    and "dap_lock st = Some h" and "h \<noteq> DAP_LOCK_OPERATION_HID_DEBUG cfg"
  shows "hid_process_step cfg st =
     Some (hid_notify (st\<lparr>proc_sem := proc_sem st - 1,
        USB_Request := (USB_Request st)[proc_idx st := (USB_Request st ! proc_idx st)[1 := 0]],
        proc_idx := (proc_idx st + 1) mod DAP_PACKET_COUNT cfg,
        send_sem := send_sem st + 1\<rparr>))"
  using assms
  apply (simp add: hid_process_step_def hid_dispatch_def proc_cmd_def
      dap_lock_operation_def os_sem_send_def Let_def)
  apply (rule arg_cong [where f = hid_notify])
  apply (rule hid_state.equality)
  apply simp_all
  done

lemma hid_dispatch_run:
  assumes "proc_cmd st = ID_DAP_Info cfg \<or> proc_cmd st = ID_DAP_Connect cfg
             \<or> dap_lock st = Some (DAP_LOCK_OPERATION_HID_DEBUG cfg)"
  shows "ring_sum (snd (hid_dispatch cfg st)) + (if fst (hid_dispatch cfg st) then 1 else 0) = ring_sum st + 1"
  using assms
  by (auto simp: hid_dispatch_def proc_cmd_def dap_lock_operation_def os_sem_send_def
      dap_lock_verify_operation_def ring_sum_def Let_def split: option.splits bool.splits)

lemma ring_sum_hid_run_command:
  "ring_sum (hid_run_command cfg st) = ring_sum st + 1"
  by (simp add: hid_run_command_def ring_sum_def os_sem_send_def Let_def)

lemma ring_sum_hid_notify: "ring_sum (hid_notify st) = ring_sum st"
  by (simp add: ring_sum_def hid_notify_fields)

lemma ring_sum_set_report:
  "ring_sum (usbd_hid_set_report cfg rtype rid buf req st) = ring_sum st"
  by (auto simp: usbd_hid_set_report_def ring_sum_def os_sem_wait_0_def os_sem_send_def
      split: hid_report_type.splits list.splits)

lemma ring_sum_get_report:
  "ring_sum (snd (snd (usbd_hid_get_report cfg rtype rid buf req st))) = ring_sum st"
  by (auto simp: usbd_hid_get_report_def ring_sum_def os_sem_wait_0_def os_sem_send_def
      split: hid_report_type.splits hid_request.splits)

lemma ring_sum_send_packet:
  "0 < send_sem st \<Longrightarrow> ring_sum (hid_send_packet cfg st) = ring_sum st"
  by (simp add: hid_send_packet_def ring_sum_def os_sem_wait_0_def os_sem_send_def)

lemma ring_sum_process_step:
  assumes "hid_process_step cfg st = Some st'"
    and "proc_cmd st = ID_DAP_Info cfg \<or> proc_cmd st = ID_DAP_Connect cfg
             \<or> dap_lock st = Some (DAP_LOCK_OPERATION_HID_DEBUG cfg)"
  shows "ring_sum st' = ring_sum st"
proof -
  let ?s = "st\<lparr>proc_sem := proc_sem st - 1\<rparr>"
  from assms(1) have p: "0 < proc_sem st"
    by (simp add: hid_process_step_def split: if_splits)
  have c: "proc_cmd ?s = proc_cmd st" "dap_lock ?s = dap_lock st"
    by (simp_all add: proc_cmd_def)
  from p have s: "ring_sum ?s + 1 = ring_sum st"
    by (simp add: ring_sum_def)
  from assms(2) c have d: "ring_sum (snd (hid_dispatch cfg ?s))
     + (if fst (hid_dispatch cfg ?s) then 1 else 0) = ring_sum ?s + 1"
    using hid_dispatch_run [of ?s cfg] by simp
  from assms(1) p have "st' = hid_notify (if fst (hid_dispatch cfg ?s)
       then hid_run_command cfg (snd (hid_dispatch cfg ?s)) else snd (hid_dispatch cfg ?s))"
    by (auto simp: hid_process_step_def split: prod.splits)
  with d s show ?thesis
    by (simp add: ring_sum_hid_notify ring_sum_hid_run_command split: if_splits)
qed

lemma ring_sum_init: "ring_sum (usbd_hid_init cfg st) = DAP_PACKET_COUNT cfg"
  by (simp add: usbd_hid_init_def ring_sum_def)

lemma hid_dispatch_events:
  "events (snd (hid_dispatch cfg st)) = events st"
  "USB_ResponseIdle (snd (hid_dispatch cfg st)) = USB_ResponseIdle st"
  by (auto simp: hid_dispatch_def dap_lock_operation_def Let_def
      split: option.splits bool.splits)

lemma hid_run_command_events:
  "events (hid_run_command cfg st) = events st @ [Execute_Command (USB_Request st ! proc_idx st)]"
  "USB_ResponseIdle (hid_run_command cfg st) = USB_ResponseIdle st"
  by (simp_all add: hid_run_command_def Let_def)

lemma hid_process_step_events:
  assumes "hid_process_step cfg st = Some st'"
  shows "\<exists>evs. events st' = events st @ evs
           @ (if USB_ResponseIdle st \<noteq> 0 then [Send_Event] else []) @ [Blink_Led_Off]"
    and "USB_ResponseIdle st' = 0"
proof -
  let ?s = "st\<lparr>proc_sem := proc_sem st - 1\<rparr>"
  let ?d = "snd (hid_dispatch cfg ?s)"
  from assms have st': "st' = hid_notify (if fst (hid_dispatch cfg ?s)
       then hid_run_command cfg ?d else ?d)"
    by (auto simp: hid_process_step_def split: prod.splits if_splits)
  then show "USB_ResponseIdle st' = 0"
    by (simp add: hid_notify_idle)
  have e: "events ?d = events st" and i: "USB_ResponseIdle ?d = USB_ResponseIdle st"
    by (simp_all add: hid_dispatch_events)
  show "\<exists>evs. events st' = events st @ evs
           @ (if USB_ResponseIdle st \<noteq> 0 then [Send_Event] else []) @ [Blink_Led_Off]"
  proof (cases "fst (hid_dispatch cfg ?s)")
    case True
    with st' e i have "events st' = events st @ [Execute_Command (USB_Request ?d ! proc_idx ?d)]
           @ (if USB_ResponseIdle st \<noteq> 0 then [Send_Event] else []) @ [Blink_Led_Off]"
      by (simp add: hid_notify_events hid_run_command_events)
    then show ?thesis by blast
  next
    case False
    with st' e i have "events st' = events st @ []
           @ (if USB_ResponseIdle st \<noteq> 0 then [Send_Event] else []) @ [Blink_Led_Off]"
      by (simp add: hid_notify_events)
    then show ?thesis by blast
  qed
qed

text \<open>
  Claim C5. When the packet at the process cursor is a Connect and acquiring the session
  lock for the transport's identity fails, the handler is not invoked (the trace gains no
  \<open>Execute_Command\<close> and the scratch buffer keeps its contents), byte 1 of the slot, the
  first byte after the command identifier, is set to the failure code 0, and the packet
  is completed all the same: the process cursor advances by one slot and \<open>send_sem\<close>
  gains the token that signals a reply. The session lock stays with its holder.
\<close>

theorem hid_process_connect_lock_refused:
  assumes "0 < proc_sem st"
    and "proc_cmd st = ID_DAP_Connect cfg" and "ID_DAP_Connect cfg \<noteq> ID_DAP_Info cfg"
    and "\<not> fst (dap_lock_operation (DAP_LOCK_OPERATION_HID_DEBUG cfg) (dap_lock st))"
    and "proc_idx st < length (USB_Request st)"
    and "1 < length (USB_Request st ! proc_idx st)"
  shows "\<exists>st'. hid_process_step cfg st = Some st' \<and>
     events st' = events st
        @ (if USB_ResponseIdle st \<noteq> 0 then [Send_Event] else []) @ [Blink_Led_Off] \<and>
     temp_buf st' = temp_buf st \<and>
     USB_Request st' = (USB_Request st)[proc_idx st := (USB_Request st ! proc_idx st)[1 := 0]] \<and>
     USB_Request st' ! proc_idx st ! 1 = 0 \<and>
     proc_idx st' = (proc_idx st + 1) mod DAP_PACKET_COUNT cfg \<and>
     send_sem st' = send_sem st + 1 \<and>
     proc_sem st' = proc_sem st - 1 \<and>
     free_sem st' = free_sem st \<and>
     dap_lock st' = dap_lock st"
proof -
  from assms(4) obtain h where h: "dap_lock st = Some h" "h \<noteq> DAP_LOCK_OPERATION_HID_DEBUG cfg"
    by (auto simp: dap_lock_operation_def split: option.splits)
  note step = hid_process_step_connect_refused [OF assms(1,2,3) h]
  show ?thesis
    unfolding step using assms(5,6)
    by (simp add: hid_notify_fields hid_notify_events)
qed

theorem hid_process_connect_lock_refused_witness:
  "\<exists>st'. hid_process_step cfg4 (hid_received (Some 5) [2, 9, 0, 0]) = Some st' \<and>
     events st' = [Send_Event, Blink_Led_Off] \<and>
     USB_Request st' = [[2, 0, 0, 0], [0, 0, 0, 0], [0, 0, 0, 0], [0, 0, 0, 0]] \<and>
     proc_idx st' = 1 \<and> send_sem st' = 1 \<and> dap_lock st' = Some 5"
proof -
  let ?st = "hid_received (Some 5) [2, 9, 0, 0]"
  have h1: "0 < proc_sem ?st"
    by (simp add: hid_received_def)
  have h2: "proc_cmd ?st = ID_DAP_Connect cfg4"
    by (simp add: hid_received_def proc_cmd_def cfg4_def)
  have h3: "ID_DAP_Connect cfg4 \<noteq> ID_DAP_Info cfg4"
    by (simp add: cfg4_def)
  have h4: "\<not> fst (dap_lock_operation (DAP_LOCK_OPERATION_HID_DEBUG cfg4) (dap_lock ?st))"
    by (simp add: hid_received_def dap_lock_operation_def cfg4_def)
  have h5: "proc_idx ?st < length (USB_Request ?st)"
    by (simp add: hid_received_def)
  have h6: "1 < length (USB_Request ?st ! proc_idx ?st)"
    by (simp add: hid_received_def)
  from hid_process_connect_lock_refused [OF h1 h2 h3 h4 h5 h6]
  obtain st' where s: "hid_process_step cfg4 ?st = Some st'"
    and e: "events st' = events ?st
        @ (if USB_ResponseIdle ?st \<noteq> 0 then [Send_Event] else []) @ [Blink_Led_Off]"
    and u: "USB_Request st' = (USB_Request ?st)[proc_idx ?st := (USB_Request ?st ! proc_idx ?st)[1 := 0]]"
    and p: "proc_idx st' = (proc_idx ?st + 1) mod DAP_PACKET_COUNT cfg4"
    and n: "send_sem st' = send_sem ?st + 1"
    and l: "dap_lock st' = dap_lock ?st"
    by blast
  from e have e': "events st' = [Send_Event, Blink_Led_Off]"
    by (simp add: hid_received_def)
  from u have u': "USB_Request st' = [[2, 0, 0, 0], [0, 0, 0, 0], [0, 0, 0, 0], [0, 0, 0, 0]]"
    by (simp add: hid_received_def)
  from p have p': "proc_idx st' = 1"
    by (simp add: hid_received_def cfg4_def)
  from n have n': "send_sem st' = 1"
    by (simp add: hid_received_def)
  from l have l': "dap_lock st' = Some 5"
    by (simp add: hid_received_def)
  from s e' u' p' n' l' show ?thesis
    by blast
qed

text \<open>
  Claim C8. \<^verbatim>\<open>hid_send_packet\<close> with no reply ready (\<open>send_sem = 0\<close>) fails its
  assertion. With a reply ready it takes one token of \<open>send_sem\<close>, transmits the slot at
  the send cursor, advances the send cursor by one slot and adds a token to \<open>free_sem\<close>;
  the counters and the cursor end as they do after the interrupt-endpoint branch of
  \<^verbatim>\<open>usbd_hid_get_report\<close> on the same state.
\<close>

theorem hid_send_packet_discipline:
  "(send_sem st = 0 \<longrightarrow>
      events (hid_send_packet cfg st) = events st @ [Assert_Failed,
         Report_Trigger (take (DAP_PACKET_SIZE cfg) (USB_Request st ! send_idx st))]) \<and>
   (0 < send_sem st \<longrightarrow>
      hid_send_packet cfg st =
        st\<lparr>send_sem := send_sem st - 1,
           events := events st
             @ [Report_Trigger (take (DAP_PACKET_SIZE cfg) (USB_Request st ! send_idx st))],
           send_idx := (send_idx st + 1) mod DAP_PACKET_COUNT cfg,
           free_sem := free_sem st + 1\<rparr> \<and>
      send_sem (hid_send_packet cfg st)
        = send_sem (snd (snd (usbd_hid_get_report cfg HID_REPORT_INPUT rid buf USBD_HID_REQ_EP_INT st))) \<and>
      send_idx (hid_send_packet cfg st)
        = send_idx (snd (snd (usbd_hid_get_report cfg HID_REPORT_INPUT rid buf USBD_HID_REQ_EP_INT st))) \<and>
      free_sem (hid_send_packet cfg st)
        = free_sem (snd (snd (usbd_hid_get_report cfg HID_REPORT_INPUT rid buf USBD_HID_REQ_EP_INT st))))"
  by (simp add: hid_send_packet_def usbd_hid_get_report_def os_sem_wait_0_def os_sem_send_def)

theorem hid_send_packet_discipline_witness:
  "send_sem (hid_boot None) = 0 \<and>
   events (hid_send_packet cfg4 (hid_boot None))
     = [Assert_Failed, Report_Trigger [0, 0, 0, 0]] \<and>
   0 < send_sem hid_full \<and>
   hid_send_packet cfg4 hid_full
     = hid_full\<lparr>send_sem := 0, events := [Report_Trigger [0, 1, 0, 0]],
                send_idx := 1, free_sem := 1\<rparr> \<and>
   send_idx (snd (snd (usbd_hid_get_report cfg4 HID_REPORT_INPUT 0 [] USBD_HID_REQ_EP_INT hid_full)))
     = 1"
proof -
  have a: "send_sem (hid_boot None) = 0"
    by (simp add: hid_boot_def)
  have b: "0 < send_sem hid_full"
    by (simp add: hid_full_def)
  from a hid_send_packet_discipline [of "hid_boot None" cfg4]
  have c: "events (hid_send_packet cfg4 (hid_boot None)) = events (hid_boot None) @ [Assert_Failed,
         Report_Trigger (take (DAP_PACKET_SIZE cfg4) (USB_Request (hid_boot None) ! send_idx (hid_boot None)))]"
    by blast
  from b hid_send_packet_discipline [of hid_full cfg4 0 "[]"]
  have d: "hid_send_packet cfg4 hid_full =
        hid_full\<lparr>send_sem := send_sem hid_full - 1,
           events := events hid_full
             @ [Report_Trigger (take (DAP_PACKET_SIZE cfg4) (USB_Request hid_full ! send_idx hid_full))],
           send_idx := (send_idx hid_full + 1) mod DAP_PACKET_COUNT cfg4,
           free_sem := free_sem hid_full + 1\<rparr>"
    and e: "send_idx (hid_send_packet cfg4 hid_full)
        = send_idx (snd (snd (usbd_hid_get_report cfg4 HID_REPORT_INPUT 0 [] USBD_HID_REQ_EP_INT hid_full)))"
    by blast+
  from c have c': "events (hid_send_packet cfg4 (hid_boot None))
     = [Assert_Failed, Report_Trigger [0, 0, 0, 0]]"
    by (simp add: hid_boot_def cfg4_def)
  from d have d': "hid_send_packet cfg4 hid_full
     = hid_full\<lparr>send_sem := 0, events := [Report_Trigger [0, 1, 0, 0]],
                send_idx := 1, free_sem := 1\<rparr>"
    by (simp add: hid_full_def cfg4_def)
  from e d' have e': "send_idx (snd (snd (usbd_hid_get_report cfg4 HID_REPORT_INPUT 0 [] USBD_HID_REQ_EP_INT hid_full))) = 1"
    by simp
  from a b c' d' e' show ?thesis
    by blast
qed

text \<open>
  Claim C10. The idle check runs at the end of every iteration, whatever the dispatch
  decided: if the idle flag was set, \<^verbatim>\<open>main_hid_send_event\<close> is called and the flag is
  cleared. In particular an iteration that discards its packet while no reply is ready
  still notifies, with \<open>send_sem = 0\<close>, and \<^verbatim>\<open>hid_send_packet\<close> on the state it leaves
  fails its assertion.
\<close>

theorem hid_process_notifies_on_every_branch:
  "(hid_process_step cfg st = Some st' \<and> USB_ResponseIdle st \<noteq> 0 \<longrightarrow>
      USB_ResponseIdle st' = 0 \<and>
      (\<exists>evs. events st' = events st @ evs @ [Send_Event, Blink_Led_Off])) \<and>
   (0 < proc_sem st \<and> proc_cmd st \<noteq> ID_DAP_Info cfg \<and> proc_cmd st \<noteq> ID_DAP_Connect cfg \<and>
    dap_lock st \<noteq> Some (DAP_LOCK_OPERATION_HID_DEBUG cfg) \<and>
    USB_ResponseIdle st \<noteq> 0 \<and> send_sem st = 0 \<longrightarrow>
      (\<exists>st''. hid_process_step cfg st = Some st'' \<and>
         events st'' = events st @ [Send_Event, Blink_Led_Off] \<and>
         USB_ResponseIdle st'' = 0 \<and> send_sem st'' = 0 \<and>
         events (hid_send_packet cfg st'') = events st'' @ [Assert_Failed,
           Report_Trigger (take (DAP_PACKET_SIZE cfg) (USB_Request st ! send_idx st))]))"
proof (rule conjI)
  show "hid_process_step cfg st = Some st' \<and> USB_ResponseIdle st \<noteq> 0 \<longrightarrow>
      USB_ResponseIdle st' = 0 \<and>
      (\<exists>evs. events st' = events st @ evs @ [Send_Event, Blink_Led_Off])"
    using hid_process_step_events [of cfg st st'] by auto
next
  show "0 < proc_sem st \<and> proc_cmd st \<noteq> ID_DAP_Info cfg \<and> proc_cmd st \<noteq> ID_DAP_Connect cfg \<and>
    dap_lock st \<noteq> Some (DAP_LOCK_OPERATION_HID_DEBUG cfg) \<and>
    USB_ResponseIdle st \<noteq> 0 \<and> send_sem st = 0 \<longrightarrow>
      (\<exists>st''. hid_process_step cfg st = Some st'' \<and>
         events st'' = events st @ [Send_Event, Blink_Led_Off] \<and>
         USB_ResponseIdle st'' = 0 \<and> send_sem st'' = 0 \<and>
         events (hid_send_packet cfg st'') = events st'' @ [Assert_Failed,
           Report_Trigger (take (DAP_PACKET_SIZE cfg) (USB_Request st ! send_idx st))])"
  proof
    assume a: "0 < proc_sem st \<and> proc_cmd st \<noteq> ID_DAP_Info cfg \<and> proc_cmd st \<noteq> ID_DAP_Connect cfg \<and>
      dap_lock st \<noteq> Some (DAP_LOCK_OPERATION_HID_DEBUG cfg) \<and>
      USB_ResponseIdle st \<noteq> 0 \<and> send_sem st = 0"
    then have step: "hid_process_step cfg st = Some (hid_notify (st\<lparr>proc_sem := proc_sem st - 1\<rparr>))"
      by (simp add: hid_process_step_discard)
    show "\<exists>st''. hid_process_step cfg st = Some st'' \<and>
         events st'' = events st @ [Send_Event, Blink_Led_Off] \<and>
         USB_ResponseIdle st'' = 0 \<and> send_sem st'' = 0 \<and>
         events (hid_send_packet cfg st'') = events st'' @ [Assert_Failed,
           Report_Trigger (take (DAP_PACKET_SIZE cfg) (USB_Request st ! send_idx st))]"
      unfolding step using a
      by (simp add: hid_notify_fields hid_notify_events hid_notify_idle
          hid_send_packet_def os_sem_wait_0_def)
  qed
qed

theorem hid_process_notifies_on_every_branch_witness:
  "(\<exists>st'. hid_process_step cfg4 (hid_received (Some 1) [3, 0, 0, 0]) = Some st' \<and>
      USB_ResponseIdle st' = 0 \<and>
      (\<exists>evs. events st' = evs @ [Send_Event, Blink_Led_Off])) \<and>
   (\<exists>st''. hid_process_step cfg4 (hid_received None [3, 0, 0, 0]) = Some st'' \<and>
      events st'' = [Send_Event, Blink_Led_Off] \<and>
      USB_ResponseIdle st'' = 0 \<and> send_sem st'' = 0 \<and>
      events (hid_send_packet cfg4 st'')
        = [Send_Event, Blink_Led_Off, Assert_Failed, Report_Trigger [3, 0, 0, 0]])"
proof -
  let ?r = "hid_received (Some 1) [3, 0, 0, 0]"
  let ?d = "hid_received None [3, 0, 0, 0]"
  have "0 < proc_sem ?r"
    by (simp add: hid_received_def)
  then obtain st' where p: "hid_process_step cfg4 ?r = Some st'"
    using hid_process_step_defined [of cfg4 ?r] by blast
  have i: "USB_ResponseIdle ?r \<noteq> 0"
    by (simp add: hid_received_def)
  from p i hid_process_notifies_on_every_branch [of cfg4 ?r st']
  have a: "USB_ResponseIdle st' = 0 \<and> (\<exists>evs. events st' = events ?r @ evs @ [Send_Event, Blink_Led_Off])"
    by blast
  have er: "events ?r = []"
    by (simp add: hid_received_def)
  from a er have a': "USB_ResponseIdle st' = 0 \<and> (\<exists>evs. events st' = evs @ [Send_Event, Blink_Led_Off])"
    by simp
  have h: "0 < proc_sem ?d \<and> proc_cmd ?d \<noteq> ID_DAP_Info cfg4 \<and> proc_cmd ?d \<noteq> ID_DAP_Connect cfg4 \<and>
    dap_lock ?d \<noteq> Some (DAP_LOCK_OPERATION_HID_DEBUG cfg4) \<and>
    USB_ResponseIdle ?d \<noteq> 0 \<and> send_sem ?d = 0"
    by (simp add: hid_received_def proc_cmd_def cfg4_def)
  from h hid_process_notifies_on_every_branch [of cfg4 ?d]
  obtain st'' where q: "hid_process_step cfg4 ?d = Some st''"
    and e: "events st'' = events ?d @ [Send_Event, Blink_Led_Off]"
    and f: "USB_ResponseIdle st'' = 0" "send_sem st'' = 0"
    and g: "events (hid_send_packet cfg4 st'') = events st'' @ [Assert_Failed,
           Report_Trigger (take (DAP_PACKET_SIZE cfg4) (USB_Request ?d ! send_idx ?d))]"
    by blast
  from e have e': "events st'' = [Send_Event, Blink_Led_Off]"
    by (simp add: hid_received_def)
  from g e' have g': "events (hid_send_packet cfg4 st'')
        = [Send_Event, Blink_Led_Off, Assert_Failed, Report_Trigger [3, 0, 0, 0]]"
    by (simp add: hid_received_def cfg4_def)
  from p a' q e' f g' show ?thesis
    by blast
qed

lemma mod_add_neq:
  fixes p k n c :: nat
  assumes "k < n" and "n < c"
  shows "(p + k) mod c \<noteq> (p + n) mod c"
proof
  assume "(p + k) mod c = (p + n) mod c"
  then have "c dvd (p + n) - (p + k)"
    by (metis mod_eq_dvd_iff_nat add_le_cancel_left assms(1) less_imp_le_nat)
  then have "c dvd n - k" by simp
  moreover have "0 < n - k" "n - k < c" using assms by auto
  ultimately show False
    by (meson dvd_imp_le not_less)
qed

lemma set_report_overflow:
  assumes "free_sem st = 0" and "b \<noteq> ID_DAP_TransferAbort cfg"
  shows "usbd_hid_set_report cfg HID_REPORT_OUTPUT rid (b # bs) req st
           = st\<lparr>events := events st @ [Assert_Failed]\<rparr>"
  using assms
  by (simp add: usbd_hid_set_report_def os_sem_wait_0_def)

lemma set_report_accept:
  assumes "0 < free_sem st" and "b \<noteq> ID_DAP_TransferAbort cfg"
  shows "usbd_hid_set_report cfg HID_REPORT_OUTPUT rid (b # bs) req st
           = st\<lparr>free_sem := free_sem st - 1,
                USB_Request := (USB_Request st)
                  [recv_idx st := (b # bs) @ drop (length (b # bs)) (USB_Request st ! recv_idx st)],
                recv_idx := (recv_idx st + 1) mod DAP_PACKET_COUNT cfg,
                proc_sem := proc_sem st + 1\<rparr>"
  using assms
  by (simp add: usbd_hid_set_report_def os_sem_wait_0_def os_sem_send_def memcpy_def)

lemma handler_calls_append [simp]:
  "handler_calls (xs @ ys) = handler_calls xs @ handler_calls ys"
  by (induction xs rule: handler_calls.induct) simp_all

lemma mod_succ_shift:
  fixes r f s c :: nat
  assumes "0 < f"
  shows "((r + 1) mod c + (f - 1) + s) mod c = (r + f + s) mod c"
proof -
  have "((r + 1) mod c + (f - 1 + s)) mod c = ((r + 1) + (f - 1 + s)) mod c"
    by (rule mod_add_left_eq)
  also have "(r + 1) + (f - 1 + s) = r + f + s"
    using assms by simp
  finally show ?thesis
    by (simp add: add.assoc)
qed

lemma cursor_not_at:
  fixes r k c p :: nat
  assumes "(r + k) mod c = p" and "0 < k" and "k < c" and "p < c"
  shows "r \<noteq> p"
proof
  assume "r = p"
  with assms(1,4) have "(p + 0) mod c = (p + k) mod c"
    by simp
  with mod_add_neq [OF assms(2,3), of p] show False
    by simp
qed

lemma mod_step_eq:
  fixes x c p :: nat
  assumes "x mod c = p"
  shows "Suc x mod c = Suc p mod c"
  using assms by (metis mod_Suc_eq)

lemma proc_cmd_stuck:
  "hid_stuck cfg st0 st \<Longrightarrow> proc_cmd st = proc_cmd st0"
  by (simp add: hid_stuck_def proc_cmd_def)

lemma hid_stuck_set_report:
  assumes "hid_stuck cfg st0 st"
  shows "hid_stuck cfg st0 (usbd_hid_set_report cfg rtype rid buf req st)"
proof (cases "rtype = HID_REPORT_OUTPUT \<and> buf \<noteq> [] \<and> hd buf \<noteq> ID_DAP_TransferAbort cfg \<and> 0 < free_sem st")
  case False
  with assms show ?thesis
    by (auto simp: usbd_hid_set_report_def hid_stuck_def os_sem_wait_0_def
        split: hid_report_type.splits list.splits)
next
  case True
  then obtain b bs where buf: "buf = b # bs" and b: "b \<noteq> ID_DAP_TransferAbort cfg"
    and f: "0 < free_sem st" and r: "rtype = HID_REPORT_OUTPUT"
    by (cases buf) auto
  let ?c = "DAP_PACKET_COUNT cfg"
  from assms have c: "(recv_idx st + (free_sem st + send_sem st)) mod ?c = proc_idx st0"
    and l: "free_sem st + send_sem st < ?c" and p: "proc_idx st0 < ?c"
    by (simp_all add: hid_stuck_def add.assoc)
  from cursor_not_at [OF c _ l p] f have ne: "recv_idx st \<noteq> proc_idx st0"
    by simp
  have m: "((recv_idx st + 1) mod ?c + (free_sem st - 1) + send_sem st) mod ?c = proc_idx st0"
    using mod_succ_shift [OF f, where r = "recv_idx st" and s = "send_sem st" and c = ?c] c
    by (simp add: add.assoc)
  show ?thesis
    unfolding buf r set_report_accept [OF f b]
    using assms ne m f by (auto simp: hid_stuck_def)
qed

lemma hid_stuck_get_report:
  assumes "hid_stuck cfg st0 st"
  shows "hid_stuck cfg st0 (snd (snd (usbd_hid_get_report cfg rtype rid buf req st)))"
  using assms
  by (auto simp: usbd_hid_get_report_def hid_stuck_def os_sem_wait_0_def os_sem_send_def
      split: hid_report_type.splits hid_request.splits)

lemma hid_stuck_send_packet:
  assumes "hid_stuck cfg st0 st" and "0 < send_sem st"
  shows "hid_stuck cfg st0 (hid_send_packet cfg st)"
  using assms
  by (auto simp: hid_send_packet_def hid_stuck_def os_sem_wait_0_def os_sem_send_def)

lemma hid_stuck_process:
  assumes "hid_stuck cfg st0 st"
    and "proc_cmd st0 \<noteq> ID_DAP_Info cfg" and "proc_cmd st0 \<noteq> ID_DAP_Connect cfg"
    and "hid_process_step cfg st = Some st'"
  shows "hid_stuck cfg st0 st'"
proof -
  from assms(4) have p: "0 < proc_sem st"
    using hid_process_step_defined [of cfg st] by blast
  from assms(1,2,3) have c: "proc_cmd st \<noteq> ID_DAP_Info cfg" "proc_cmd st \<noteq> ID_DAP_Connect cfg"
    by (simp_all add: proc_cmd_stuck)
  from assms(1) have l: "dap_lock st \<noteq> Some (DAP_LOCK_OPERATION_HID_DEBUG cfg)"
    by (simp add: hid_stuck_def)
  from assms(4) hid_process_step_discard [OF p c l]
  have "st' = hid_notify (st\<lparr>proc_sem := proc_sem st - 1\<rparr>)"
    by simp
  with assms(1) show ?thesis
    by (simp add: hid_stuck_def hid_notify_fields hid_notify_events)
qed

lemma hid_stuck_apply:
  assumes "hid_stuck cfg st0 st"
    and "proc_cmd st0 \<noteq> ID_DAP_Info cfg" and "proc_cmd st0 \<noteq> ID_DAP_Connect cfg"
    and "foreign_op cfg a" and "hid_apply cfg a st = Some st'"
  shows "hid_stuck cfg st0 st'"
proof (cases a)
  case (Set_Report rtype rid buf req)
  with assms(1,5) show ?thesis
    by (auto simp: hid_apply_def hid_stuck_set_report)
next
  case (Get_Report rtype rid buf req)
  with assms(1,5) show ?thesis
    by (auto simp: hid_apply_def hid_stuck_get_report)
next
  case Send_Packet
  with assms(1,5) show ?thesis
    by (auto simp: hid_apply_def hid_stuck_send_packet split: if_splits)
next
  case Process
  with assms(1,2,3,5) show ?thesis
    by (auto simp: hid_apply_def split: option.splits dest: hid_stuck_process)
next
  case (Lock_Other i)
  with assms(1,4,5) show ?thesis
    by (auto simp: hid_apply_def hid_stuck_def dap_lock_operation_def split: option.splits)
next
  case (Unlock_Other i)
  with assms(1,5) show ?thesis
    by (auto simp: hid_apply_def hid_stuck_def dap_unlock_operation_def)
qed

lemma hid_stuck_run:
  assumes "hid_stuck cfg st0 st"
    and "proc_cmd st0 \<noteq> ID_DAP_Info cfg" and "proc_cmd st0 \<noteq> ID_DAP_Connect cfg"
    and "list_all (foreign_op cfg) ops"
  shows "hid_stuck cfg st0 (hid_run cfg ops st)"
  using assms(1,4)
proof (induction ops arbitrary: st)
  case Nil
  then show ?case by simp
next
  case (Cons a ops)
  show ?case
  proof (cases "hid_apply cfg a st")
    case None
    with Cons.prems show ?thesis by simp
  next
    case (Some st')
    with Cons.prems assms(2,3) have "hid_stuck cfg st0 st'"
      using hid_stuck_apply [of cfg st0 st a st'] by simp
    with Cons.IH Cons.prems Some show ?thesis by simp
  qed
qed

lemma ring_cursors_ok_init:
  assumes "0 < DAP_PACKET_COUNT cfg" and "length (USB_Request st) = DAP_PACKET_COUNT cfg"
  shows "ring_cursors_ok cfg (usbd_hid_init cfg st)"
  using assms by (simp add: ring_cursors_ok_def usbd_hid_init_def)

lemma ring_cursors_ok_set_report:
  assumes "ring_cursors_ok cfg st"
  shows "ring_cursors_ok cfg (usbd_hid_set_report cfg rtype rid buf req st)"
proof (cases "rtype = HID_REPORT_OUTPUT \<and> buf \<noteq> [] \<and> hd buf \<noteq> ID_DAP_TransferAbort cfg \<and> 0 < free_sem st")
  case False
  with assms show ?thesis
    by (auto simp: usbd_hid_set_report_def ring_cursors_ok_def os_sem_wait_0_def
        split: hid_report_type.splits list.splits)
next
  case True
  then obtain b bs where buf: "buf = b # bs" and b: "b \<noteq> ID_DAP_TransferAbort cfg"
    and f: "0 < free_sem st" and r: "rtype = HID_REPORT_OUTPUT"
    by (cases buf) auto
  let ?c = "DAP_PACKET_COUNT cfg"
  from assms have c: "(recv_idx st + free_sem st + send_sem st) mod ?c = proc_idx st"
    by (simp add: ring_cursors_ok_def)
  have m: "((recv_idx st + 1) mod ?c + (free_sem st - 1) + send_sem st) mod ?c = proc_idx st"
    using mod_succ_shift [OF f, where r = "recv_idx st" and s = "send_sem st" and c = ?c] c
    by simp
  show ?thesis
    unfolding buf r set_report_accept [OF f b]
    using assms m f by (auto simp: ring_cursors_ok_def)
qed

lemma ring_cursors_ok_get_report:
  assumes "ring_cursors_ok cfg st"
  shows "ring_cursors_ok cfg (snd (snd (usbd_hid_get_report cfg rtype rid buf req st)))"
  using assms
  by (auto simp: usbd_hid_get_report_def ring_cursors_ok_def os_sem_wait_0_def os_sem_send_def
      split: hid_report_type.splits hid_request.splits)

lemma ring_cursors_ok_send_packet:
  assumes "ring_cursors_ok cfg st" and "0 < send_sem st"
  shows "ring_cursors_ok cfg (hid_send_packet cfg st)"
  using assms
  by (auto simp: hid_send_packet_def ring_cursors_ok_def os_sem_wait_0_def os_sem_send_def)

lemma ring_complete:
  assumes "ring_in_flight cfg st"
  shows "ring_cursors_ok cfg
     (st\<lparr>USB_Request := (USB_Request st)[proc_idx st := x],
         proc_idx := (proc_idx st + 1) mod DAP_PACKET_COUNT cfg,
         send_sem := send_sem st + 1\<rparr>)"
proof -
  from assms have "(recv_idx st + free_sem st + send_sem st) mod DAP_PACKET_COUNT cfg = proc_idx st"
    by (simp add: ring_in_flight_def)
  then have "Suc (recv_idx st + free_sem st + send_sem st) mod DAP_PACKET_COUNT cfg
     = Suc (proc_idx st) mod DAP_PACKET_COUNT cfg"
    by (rule mod_step_eq)
  with assms show ?thesis
    by (simp add: ring_in_flight_def ring_cursors_ok_def)
qed

lemma ring_cursors_ok_weaken:
  "ring_in_flight cfg st \<Longrightarrow> ring_cursors_ok cfg st"
  by (simp add: ring_in_flight_def ring_cursors_ok_def)

lemma ring_cursors_ok_lock:
  "ring_cursors_ok cfg (st\<lparr>dap_lock := l\<rparr>) = ring_cursors_ok cfg st"
  "ring_in_flight cfg (st\<lparr>dap_lock := l\<rparr>) = ring_in_flight cfg st"
  by (simp_all add: ring_cursors_ok_def ring_in_flight_def)

lemma ring_cursors_ok_notify:
  "ring_cursors_ok cfg (hid_notify st) = ring_cursors_ok cfg st"
  by (simp add: ring_cursors_ok_def hid_notify_fields)

lemma ring_cursors_ok_run_command:
  assumes "ring_in_flight cfg st"
  shows "ring_cursors_ok cfg (hid_run_command cfg st)"
proof -
  let ?x = "memcpy (USB_Request st ! proc_idx st)
     (DAP_ExecuteCommand cfg (USB_Request st ! proc_idx st) (temp_buf st)) (DAP_PACKET_SIZE cfg)"
  let ?s = "st\<lparr>USB_Request := (USB_Request st)[proc_idx st := ?x],
         proc_idx := (proc_idx st + 1) mod DAP_PACKET_COUNT cfg,
         send_sem := send_sem st + 1\<rparr>"
  have "ring_cursors_ok cfg ?s"
    using assms by (rule ring_complete)
  then show ?thesis
    by (simp add: hid_run_command_def Let_def os_sem_send_def ring_cursors_ok_def)
qed

lemma ring_cursors_ok_dispatch:
  assumes "ring_in_flight cfg st"
  shows "if fst (hid_dispatch cfg st) then ring_in_flight cfg (snd (hid_dispatch cfg st))
         else ring_cursors_ok cfg (snd (hid_dispatch cfg st))"
proof -
  let ?s = "st\<lparr>USB_Request := (USB_Request st)[proc_idx st := (USB_Request st ! proc_idx st)[1 := 0]],
         proc_idx := (proc_idx st + 1) mod DAP_PACKET_COUNT cfg,
         send_sem := send_sem st + 1\<rparr>"
  have c: "ring_cursors_ok cfg ?s"
    using assms by (rule ring_complete)
  from assms have w: "ring_cursors_ok cfg st"
    by (rule ring_cursors_ok_weaken)
  from c w assms show ?thesis
    by (auto simp: hid_dispatch_def Let_def dap_lock_operation_def os_sem_send_def
        dap_lock_verify_operation_def ring_cursors_ok_def ring_in_flight_def
        split: option.splits bool.splits)
qed

lemma ring_cursors_ok_process:
  assumes "ring_cursors_ok cfg st" and "hid_process_step cfg st = Some st'"
  shows "ring_cursors_ok cfg st'"
proof -
  let ?s = "st\<lparr>proc_sem := proc_sem st - 1\<rparr>"
  from assms(2) have p: "0 < proc_sem st"
    using hid_process_step_defined [of cfg st] by blast
  with assms(1) have f: "ring_in_flight cfg ?s"
    by (auto simp: ring_cursors_ok_def ring_in_flight_def)
  note d = ring_cursors_ok_dispatch [OF f]
  from assms(2) p have st': "st' = hid_notify (if fst (hid_dispatch cfg ?s)
       then hid_run_command cfg (snd (hid_dispatch cfg ?s)) else snd (hid_dispatch cfg ?s))"
    by (auto simp: hid_process_step_def split: prod.splits)
  show ?thesis
  proof (cases "fst (hid_dispatch cfg ?s)")
    case True
    with d have "ring_in_flight cfg (snd (hid_dispatch cfg ?s))" by simp
    then have "ring_cursors_ok cfg (hid_run_command cfg (snd (hid_dispatch cfg ?s)))"
      by (rule ring_cursors_ok_run_command)
    with st' True show ?thesis
      by (simp add: ring_cursors_ok_notify)
  next
    case False
    with d st' show ?thesis
      by (simp add: ring_cursors_ok_notify)
  qed
qed

lemma ring_cursors_ok_apply:
  assumes "ring_cursors_ok cfg st" and "hid_apply cfg a st = Some st'"
  shows "ring_cursors_ok cfg st'"
proof (cases a)
  case (Set_Report rtype rid buf req)
  with assms show ?thesis
    by (auto simp: hid_apply_def ring_cursors_ok_set_report)
next
  case (Get_Report rtype rid buf req)
  with assms show ?thesis
    by (auto simp: hid_apply_def ring_cursors_ok_get_report)
next
  case Send_Packet
  with assms show ?thesis
    by (auto simp: hid_apply_def ring_cursors_ok_send_packet split: if_splits)
next
  case Process
  with assms show ?thesis
    by (auto simp: hid_apply_def split: option.splits dest: ring_cursors_ok_process)
next
  case (Lock_Other i)
  with assms show ?thesis
    by (auto simp: hid_apply_def ring_cursors_ok_lock)
next
  case (Unlock_Other i)
  with assms show ?thesis
    by (auto simp: hid_apply_def ring_cursors_ok_lock)
qed

lemma ring_cursors_ok_run:
  assumes "ring_cursors_ok cfg st"
  shows "ring_cursors_ok cfg (hid_run cfg ops st)"
  using assms
proof (induction ops arbitrary: st)
  case Nil
  then show ?case by simp
next
  case (Cons a ops)
  then show ?case
    by (cases "hid_apply cfg a st") (auto dest: ring_cursors_ok_apply)
qed

lemma hid_stuck_after_discard:
  assumes "ring_cursors_ok cfg st" and "0 < proc_sem st"
    and "dap_lock st \<noteq> Some (DAP_LOCK_OPERATION_HID_DEBUG cfg)"
  shows "hid_stuck cfg st (hid_notify (st\<lparr>proc_sem := proc_sem st - 1\<rparr>))"
  using assms
  by (auto simp: hid_stuck_def ring_cursors_ok_def hid_notify_fields hid_notify_events)

text \<open>Every state a run reaches from start-up has consistent cursors.\<close>

lemma ring_cursors_ok_reachable:
  assumes "0 < DAP_PACKET_COUNT cfg" and "length (USB_Request st) = DAP_PACKET_COUNT cfg"
  shows "ring_cursors_ok cfg (hid_run cfg ops (usbd_hid_init cfg st))"
  using assms by (simp add: ring_cursors_ok_run ring_cursors_ok_init)

text \<open>
  Claim C4. When the packet at the process cursor is neither Info nor Connect and the
  session lock is not held by the transport's identity, the iteration discards the
  packet: the handler is not invoked, the slots and the scratch buffer are unchanged, the
  process cursor does not advance, \<open>send_sem\<close> gains no token, so no reply is signalled,
  and the worker is back at its wait with one token of \<open>proc_sem\<close> consumed. Nor is a
  reply produced later: in every run that continues from there (the ring's cursors being
  consistent, as they are from start-up on) the packet stays in its slot at the process
  cursor, the handler is never called, and \<open>send_sem\<close> never gains a token.
\<close>

theorem hid_process_discards_without_lock:
  assumes "0 < proc_sem st"
    and "proc_cmd st \<noteq> ID_DAP_Info cfg" and "proc_cmd st \<noteq> ID_DAP_Connect cfg"
    and "\<not> dap_lock_verify_operation (DAP_LOCK_OPERATION_HID_DEBUG cfg) (dap_lock st)"
  shows "\<exists>st'. hid_process_step cfg st = Some st' \<and>
     events st' = events st
        @ (if USB_ResponseIdle st \<noteq> 0 then [Send_Event] else []) @ [Blink_Led_Off] \<and>
     temp_buf st' = temp_buf st \<and>
     USB_Request st' = USB_Request st \<and>
     proc_idx st' = proc_idx st \<and>
     send_sem st' = send_sem st \<and>
     send_idx st' = send_idx st \<and>
     free_sem st' = free_sem st \<and>
     recv_idx st' = recv_idx st \<and>
     proc_sem st' = proc_sem st - 1 \<and>
     dap_lock st' = dap_lock st \<and>
     (ring_cursors_ok cfg st \<and> list_all (foreign_op cfg) ops \<longrightarrow>
        proc_idx (hid_run cfg ops st') = proc_idx st \<and>
        USB_Request (hid_run cfg ops st') ! proc_idx st = USB_Request st ! proc_idx st \<and>
        temp_buf (hid_run cfg ops st') = temp_buf st \<and>
        handler_calls (events (hid_run cfg ops st')) = handler_calls (events st) \<and>
        send_sem (hid_run cfg ops st') \<le> send_sem st)"
proof -
  let ?st' = "hid_notify (st\<lparr>proc_sem := proc_sem st - 1\<rparr>)"
  from assms(4) have l: "dap_lock st \<noteq> Some (DAP_LOCK_OPERATION_HID_DEBUG cfg)"
    by (simp add: dap_lock_verify_operation_def)
  note step = hid_process_step_discard [OF assms(1,2,3) l]
  have run: "hid_stuck cfg st (hid_run cfg ops ?st')"
    if "ring_cursors_ok cfg st" and "list_all (foreign_op cfg) ops"
    using hid_stuck_run [OF hid_stuck_after_discard [OF that(1) assms(1) l] assms(2,3) that(2)] .
  show ?thesis
    unfolding step using run
    by (auto simp: hid_notify_fields hid_notify_events hid_stuck_def)
qed

theorem hid_process_discards_without_lock_witness:
  "\<exists>st'. hid_process_step cfg4 (hid_received None [3, 0, 0, 0]) = Some st' \<and>
     events st' = [Send_Event, Blink_Led_Off] \<and>
     USB_Request st' = [[3, 0, 0, 0], [0, 0, 0, 0], [0, 0, 0, 0], [0, 0, 0, 0]] \<and>
     proc_idx st' = 0 \<and> send_sem st' = 0 \<and> proc_sem st' = 0 \<and>
     proc_idx (hid_run cfg4
       [Set_Report HID_REPORT_OUTPUT 0 [2, 1, 0, 0] USBD_HID_REQ_OTHER, Process,
        Get_Report HID_REPORT_INPUT 0 [] USBD_HID_REQ_EP_INT] st') = 0 \<and>
     handler_calls (events (hid_run cfg4
       [Set_Report HID_REPORT_OUTPUT 0 [2, 1, 0, 0] USBD_HID_REQ_OTHER, Process,
        Get_Report HID_REPORT_INPUT 0 [] USBD_HID_REQ_EP_INT] st')) = []"
proof -
  let ?st = "hid_received None [3, 0, 0, 0]"
  let ?ops = "[Set_Report HID_REPORT_OUTPUT 0 [2, 1, 0, 0] USBD_HID_REQ_OTHER, Process,
        Get_Report HID_REPORT_INPUT 0 [] USBD_HID_REQ_EP_INT]"
  have h1: "0 < proc_sem ?st"
    by (simp add: hid_received_def)
  have h2: "proc_cmd ?st \<noteq> ID_DAP_Info cfg4"
    by (simp add: hid_received_def proc_cmd_def cfg4_def)
  have h3: "proc_cmd ?st \<noteq> ID_DAP_Connect cfg4"
    by (simp add: hid_received_def proc_cmd_def cfg4_def)
  have h4: "\<not> dap_lock_verify_operation (DAP_LOCK_OPERATION_HID_DEBUG cfg4) (dap_lock ?st)"
    by (simp add: hid_received_def dap_lock_verify_operation_def)
  have h5: "ring_cursors_ok cfg4 ?st"
    by (simp add: ring_cursors_ok_def hid_received_def cfg4_def)
  have h6: "list_all (foreign_op cfg4) ?ops"
    by simp
  from hid_process_discards_without_lock [OF h1 h2 h3 h4, of ?ops] h5 h6
  obtain st' where s: "hid_process_step cfg4 ?st = Some st'"
    and e: "events st' = events ?st
        @ (if USB_ResponseIdle ?st \<noteq> 0 then [Send_Event] else []) @ [Blink_Led_Off]"
    and u: "USB_Request st' = USB_Request ?st"
    and p: "proc_idx st' = proc_idx ?st"
    and n: "send_sem st' = send_sem ?st"
    and m: "proc_sem st' = proc_sem ?st - 1"
    and r: "proc_idx (hid_run cfg4 ?ops st') = proc_idx ?st"
    and c: "handler_calls (events (hid_run cfg4 ?ops st')) = handler_calls (events ?st)"
    by blast
  from e have e': "events st' = [Send_Event, Blink_Led_Off]"
    by (simp add: hid_received_def)
  from u have u': "USB_Request st' = [[3, 0, 0, 0], [0, 0, 0, 0], [0, 0, 0, 0], [0, 0, 0, 0]]"
    by (simp add: hid_received_def)
  from p have p': "proc_idx st' = 0"
    by (simp add: hid_received_def)
  from n have n': "send_sem st' = 0"
    by (simp add: hid_received_def)
  from m have m': "proc_sem st' = 0"
    by (simp add: hid_received_def)
  from r have r': "proc_idx (hid_run cfg4 ?ops st') = 0"
    by (simp add: hid_received_def)
  from c have c': "handler_calls (events (hid_run cfg4 ?ops st')) = []"
    by (simp add: hid_received_def)
  from s e' u' p' n' m' r' c' show ?thesis
    by blast
qed

text \<open>The receive cursor stays inside the ring in every state a run reaches from start-up.\<close>

lemma recv_idx_set_report:
  "0 < DAP_PACKET_COUNT cfg \<Longrightarrow> recv_idx st < DAP_PACKET_COUNT cfg \<Longrightarrow>
   recv_idx (usbd_hid_set_report cfg rtype rid buf req st) < DAP_PACKET_COUNT cfg"
  by (auto simp: usbd_hid_set_report_def os_sem_wait_0_def
      split: hid_report_type.splits list.splits)

lemma recv_idx_get_report:
  "recv_idx (snd (snd (usbd_hid_get_report cfg rtype rid buf req st))) = recv_idx st"
  by (auto simp: usbd_hid_get_report_def os_sem_wait_0_def
      split: hid_report_type.splits hid_request.splits)

lemma recv_idx_send_packet: "recv_idx (hid_send_packet cfg st) = recv_idx st"
  by (simp add: hid_send_packet_def os_sem_wait_0_def split: prod.splits)

lemma recv_idx_process:
  "hid_process_step cfg st = Some st' \<Longrightarrow> recv_idx st' = recv_idx st"
  by (auto simp: hid_defs split: if_splits option.splits bool.splits)

lemma recv_idx_apply:
  assumes "0 < DAP_PACKET_COUNT cfg" and "recv_idx st < DAP_PACKET_COUNT cfg"
    and "hid_apply cfg a st = Some st'"
  shows "recv_idx st' < DAP_PACKET_COUNT cfg"
proof (cases a)
  case (Set_Report rtype rid buf req)
  with assms show ?thesis
    by (auto simp: hid_apply_def recv_idx_set_report)
next
  case (Get_Report rtype rid buf req)
  with assms show ?thesis
    by (auto simp: hid_apply_def recv_idx_get_report)
next
  case Send_Packet
  with assms show ?thesis
    by (auto simp: hid_apply_def recv_idx_send_packet split: if_splits)
next
  case Process
  with assms show ?thesis
    by (auto simp: hid_apply_def split: option.splits dest: recv_idx_process)
next
  case (Lock_Other i)
  with assms show ?thesis
    by (auto simp: hid_apply_def)
next
  case (Unlock_Other i)
  with assms show ?thesis
    by (auto simp: hid_apply_def)
qed

lemma recv_idx_run:
  assumes "0 < DAP_PACKET_COUNT cfg" and "recv_idx st < DAP_PACKET_COUNT cfg"
  shows "recv_idx (hid_run cfg ops st) < DAP_PACKET_COUNT cfg"
  using assms(2)
proof (induction ops arbitrary: st)
  case Nil
  then show ?case by simp
next
  case (Cons a ops)
  show ?case
  proof (cases "hid_apply cfg a st")
    case None
    with Cons.prems show ?thesis by simp
  next
    case (Some st')
    with assms(1) Cons.prems have "recv_idx st' < DAP_PACKET_COUNT cfg"
      by (rule_tac recv_idx_apply)
    with Cons.IH Some show ?thesis by simp
  qed
qed

lemma recv_idx_reachable:
  assumes "0 < DAP_PACKET_COUNT cfg"
  shows "recv_idx (hid_run cfg ops (usbd_hid_init cfg st)) < DAP_PACKET_COUNT cfg"
  using assms by (intro recv_idx_run) (simp_all add: usbd_hid_init_def)

lemma recv_cursor_position:
  assumes "ring_cursors_ok cfg st" and "recv_idx st < DAP_PACKET_COUNT cfg"
  shows "(proc_idx st + (DAP_PACKET_COUNT cfg - (free_sem st + send_sem st)))
           mod DAP_PACKET_COUNT cfg = recv_idx st"
proof -
  let ?c = "DAP_PACKET_COUNT cfg"
  let ?m = "free_sem st + send_sem st"
  from assms(1) have p: "(recv_idx st + ?m) mod ?c = proc_idx st" and m: "?m \<le> ?c"
    by (simp_all add: ring_cursors_ok_def add.assoc)
  have "(proc_idx st + (?c - ?m)) mod ?c = ((recv_idx st + ?m) mod ?c + (?c - ?m)) mod ?c"
    using p by simp
  also have "\<dots> = ((recv_idx st + ?m) + (?c - ?m)) mod ?c"
    by (rule mod_add_left_eq)
  also have "(recv_idx st + ?m) + (?c - ?m) = recv_idx st + ?c"
    using m by simp
  also have "(recv_idx st + ?c) mod ?c = recv_idx st"
    using assms(2) by simp
  finally show ?thesis .
qed

lemma uncompleted_requests_accept:
  assumes "0 < free_sem st" and "b \<noteq> ID_DAP_TransferAbort cfg"
    and "ring_cursors_ok cfg st" and "recv_idx st < DAP_PACKET_COUNT cfg"
  shows "uncompleted_requests cfg (usbd_hid_set_report cfg HID_REPORT_OUTPUT rid (b # bs) req st)
           = uncompleted_requests cfg st
               @ [(b # bs) @ drop (length (b # bs)) (USB_Request st ! recv_idx st)]"
proof -
  let ?c = "DAP_PACKET_COUNT cfg"
  let ?n = "?c - (free_sem st + send_sem st)"
  from assms(3) have len: "length (USB_Request st) = ?c" and m: "free_sem st + send_sem st \<le> ?c"
    by (simp_all add: ring_cursors_ok_def)
  from assms(1) m have n: "?n < ?c"
    by simp
  have r: "recv_idx st = (proc_idx st + ?n) mod ?c"
    using recv_cursor_position [OF assms(3,4)] by simp
  have old: "(USB_Request st)[recv_idx st := x] ! ((proc_idx st + k) mod ?c)
               = USB_Request st ! ((proc_idx st + k) mod ?c)" if "k < ?n" for k x
    using that n r mod_add_neq [of k ?n ?c "proc_idx st"] by simp
  from assms(1) m have suc: "?c - (free_sem st - Suc 0 + send_sem st) = Suc ?n"
    by simp
  have new: "(USB_Request st)[recv_idx st := x] ! ((proc_idx st + ?n) mod ?c) = x" for x
    using r assms(4) len by simp
  have "map (\<lambda>k. (USB_Request st)[recv_idx st := x] ! ((proc_idx st + k) mod ?c)) [0..<Suc ?n]
          = map (\<lambda>k. USB_Request st ! ((proc_idx st + k) mod ?c)) [0..<?n] @ [x]" for x
    using old new by simp
  then show ?thesis
    unfolding set_report_accept [OF assms(1,2)]
    by (simp add: uncompleted_requests_def suc del: upt_Suc)
qed

lemma uncompleted_requests_get_report:
  "uncompleted_requests cfg (snd (snd (usbd_hid_get_report cfg rtype rid buf req st)))
     = uncompleted_requests cfg st"
  by (auto simp: usbd_hid_get_report_def uncompleted_requests_def os_sem_wait_0_def os_sem_send_def
      split: hid_report_type.splits hid_request.splits)

text \<open>
  The worker examines the head of the queue of uncompleted requests, and an iteration
  that completes its packet removes the head; an iteration that discards leaves the
  queue as it is.
\<close>

lemma uncompleted_requests_head:
  assumes "ring_cursors_ok cfg st" and "0 < proc_sem st"
  shows "uncompleted_requests cfg st \<noteq> [] \<and>
         hd (uncompleted_requests cfg st) = USB_Request st ! proc_idx st"
proof -
  let ?n = "DAP_PACKET_COUNT cfg - (free_sem st + send_sem st)"
  from assms have n: "0 < ?n" and p: "proc_idx st < DAP_PACKET_COUNT cfg"
    by (simp_all add: ring_cursors_ok_def)
  from n have "[0..<?n] = 0 # [Suc 0..<?n]"
    by (simp add: upt_rec)
  with p show ?thesis
    by (simp add: uncompleted_requests_def)
qed

lemma uncompleted_requests_complete:
  assumes "ring_in_flight cfg st"
  shows "uncompleted_requests cfg
     (st\<lparr>USB_Request := (USB_Request st)[proc_idx st := x],
         proc_idx := (proc_idx st + 1) mod DAP_PACKET_COUNT cfg,
         send_sem := send_sem st + 1\<rparr>) = tl (uncompleted_requests cfg st)"
proof -
  let ?c = "DAP_PACKET_COUNT cfg"
  let ?n = "?c - (free_sem st + send_sem st)"
  let ?f = "\<lambda>k. USB_Request st ! ((proc_idx st + k) mod ?c)"
  let ?g = "\<lambda>k. (USB_Request st)[proc_idx st := x] ! (((proc_idx st + 1) mod ?c + k) mod ?c)"
  from assms have n: "0 < ?n" and p: "proc_idx st < ?c"
    by (simp_all add: ring_in_flight_def)
  have n': "?c - (free_sem st + (send_sem st + 1)) = ?n - 1"
    by simp
  have pt: "?g k = ?f (Suc k)" if "k < ?n - 1" for k
  proof -
    from that have "0 < Suc k" "Suc k < ?c"
      by simp_all
    from mod_add_neq [OF this, of "proc_idx st"] p
    have "(proc_idx st + Suc k) mod ?c \<noteq> proc_idx st"
      by simp
    moreover have "((proc_idx st + 1) mod ?c + k) mod ?c = (proc_idx st + Suc k) mod ?c"
      by (simp add: mod_add_left_eq)
    ultimately show ?thesis
      by simp
  qed
  from n obtain m where m: "?n = Suc m"
    by (cases ?n) auto
  have u: "[0..<Suc m] = 0 # map Suc [0..<m]"
    by (metis upt_rec map_Suc_upt zero_less_Suc)
  have "tl (map ?f [0..<Suc m]) = map (\<lambda>k. ?f (Suc k)) [0..<m]"
    unfolding u by (simp add: comp_def)
  also have "\<dots> = map ?g [0..<m]"
    using pt m by simp
  finally have "map ?g [0..<?n - 1] = tl (map ?f [0..<?n])"
    using m by simp
  then show ?thesis
    by (simp add: uncompleted_requests_def n' del: One_nat_def)
qed

lemma uncompleted_requests_cong:
  assumes "USB_Request a = USB_Request b" and "proc_idx a = proc_idx b"
    and "free_sem a = free_sem b" and "send_sem a = send_sem b"
  shows "uncompleted_requests cfg a = uncompleted_requests cfg b"
  using assms by (simp add: uncompleted_requests_def)

lemma uncompleted_requests_run_command:
  assumes "ring_in_flight cfg st"
  shows "uncompleted_requests cfg (hid_run_command cfg st) = tl (uncompleted_requests cfg st)"
proof -
  let ?x = "memcpy (USB_Request st ! proc_idx st)
     (DAP_ExecuteCommand cfg (USB_Request st ! proc_idx st) (temp_buf st)) (DAP_PACKET_SIZE cfg)"
  let ?s = "st\<lparr>USB_Request := (USB_Request st)[proc_idx st := ?x],
         proc_idx := (proc_idx st + 1) mod DAP_PACKET_COUNT cfg,
         send_sem := send_sem st + 1\<rparr>"
  have "uncompleted_requests cfg (hid_run_command cfg st) = uncompleted_requests cfg ?s"
    by (rule uncompleted_requests_cong)
      (simp_all add: hid_run_command_def Let_def os_sem_send_def)
  with uncompleted_requests_complete [OF assms, of ?x] show ?thesis
    by simp
qed

lemma ring_in_flight_lock:
  "ring_in_flight cfg (st\<lparr>dap_lock := l\<rparr>) = ring_in_flight cfg st"
  by (simp add: ring_in_flight_def)

lemma uncompleted_requests_lock:
  "uncompleted_requests cfg (st\<lparr>dap_lock := l\<rparr>) = uncompleted_requests cfg st"
  by (simp add: uncompleted_requests_def)

lemma uncompleted_requests_dispatch:
  assumes "ring_in_flight cfg st"
  shows "uncompleted_requests cfg
           (if fst (hid_dispatch cfg st) then hid_run_command cfg (snd (hid_dispatch cfg st))
            else snd (hid_dispatch cfg st))
         = (if proc_cmd st = ID_DAP_Info cfg \<or> proc_cmd st = ID_DAP_Connect cfg
               \<or> dap_lock st = Some (DAP_LOCK_OPERATION_HID_DEBUG cfg)
            then tl (uncompleted_requests cfg st) else uncompleted_requests cfg st)"
proof -
  let ?x = "(USB_Request st ! proc_idx st)[1 := 0]"
  have r: "uncompleted_requests cfg (hid_run_command cfg (st\<lparr>dap_lock := l\<rparr>))
             = tl (uncompleted_requests cfg st)" for l
    using uncompleted_requests_run_command [of cfg "st\<lparr>dap_lock := l\<rparr>"] assms
    by (simp add: ring_in_flight_lock uncompleted_requests_lock)
  have r0: "uncompleted_requests cfg (hid_run_command cfg st) = tl (uncompleted_requests cfg st)"
    using assms by (rule uncompleted_requests_run_command)
  have c: "uncompleted_requests cfg
     (st\<lparr>dap_lock := l, USB_Request := (USB_Request st)[proc_idx st := ?x],
         proc_idx := (proc_idx st + 1) mod DAP_PACKET_COUNT cfg,
         send_sem := send_sem st + 1\<rparr>) = tl (uncompleted_requests cfg st)" for l
  proof -
    have "uncompleted_requests cfg
       (st\<lparr>dap_lock := l, USB_Request := (USB_Request st)[proc_idx st := ?x],
           proc_idx := (proc_idx st + 1) mod DAP_PACKET_COUNT cfg,
           send_sem := send_sem st + 1\<rparr>)
       = uncompleted_requests cfg
       (st\<lparr>USB_Request := (USB_Request st)[proc_idx st := ?x],
           proc_idx := (proc_idx st + 1) mod DAP_PACKET_COUNT cfg,
           send_sem := send_sem st + 1\<rparr>)"
      by (rule uncompleted_requests_cong) simp_all
    with uncompleted_requests_complete [OF assms, of ?x] show ?thesis
      by simp
  qed
  show ?thesis
    using r r0 c
    by (auto simp: hid_dispatch_def Let_def proc_cmd_def dap_lock_operation_def
        dap_lock_verify_operation_def os_sem_send_def split: option.splits bool.splits)
qed

lemma uncompleted_requests_process:
  assumes "ring_cursors_ok cfg st" and "hid_process_step cfg st = Some st'"
  shows "uncompleted_requests cfg st'
         = (if proc_cmd st = ID_DAP_Info cfg \<or> proc_cmd st = ID_DAP_Connect cfg
               \<or> dap_lock st = Some (DAP_LOCK_OPERATION_HID_DEBUG cfg)
            then tl (uncompleted_requests cfg st) else uncompleted_requests cfg st)"
proof -
  let ?s = "st\<lparr>proc_sem := proc_sem st - 1\<rparr>"
  from assms(2) have p: "0 < proc_sem st"
    using hid_process_step_defined [of cfg st] by blast
  with assms(1) have f: "ring_in_flight cfg ?s"
    by (auto simp: ring_cursors_ok_def ring_in_flight_def)
  from assms(2) p have st': "st' = hid_notify (if fst (hid_dispatch cfg ?s)
       then hid_run_command cfg (snd (hid_dispatch cfg ?s)) else snd (hid_dispatch cfg ?s))"
    by (auto simp: hid_process_step_def split: prod.splits)
  have n: "uncompleted_requests cfg (hid_notify x) = uncompleted_requests cfg x" for x
    by (rule uncompleted_requests_cong) (simp_all add: hid_notify_fields)
  have s: "uncompleted_requests cfg ?s = uncompleted_requests cfg st"
    by (rule uncompleted_requests_cong) simp_all
  have c: "proc_cmd ?s = proc_cmd st" "dap_lock ?s = dap_lock st"
    by (simp_all add: proc_cmd_def)
  show ?thesis
    unfolding st' n uncompleted_requests_dispatch [OF f] s c ..
qed

text \<open>
  Slots keep their size in every run from start-up whose reports fit a slot, with a
  handler that keeps the size of the scratch buffer.
\<close>

lemma list_all_update:
  assumes "list_all P xs" and "i < length xs \<Longrightarrow> P x"
  shows "list_all P (xs[i := x])"
proof (cases "i < length xs")
  case True
  with assms show ?thesis
    by (auto simp: list_all_length nth_list_update)
next
  case False
  then have "xs[i := x] = xs"
    by (simp add: list_update_beyond)
  with assms(1) show ?thesis
    by simp
qed

lemma ring_slots_ok_set_report:
  assumes "ring_slots_ok cfg st" and "length buf \<le> DAP_PACKET_SIZE cfg"
  shows "ring_slots_ok cfg (usbd_hid_set_report cfg rtype rid buf req st)"
proof -
  have "list_all (\<lambda>p. length p = DAP_PACKET_SIZE cfg)
          ((USB_Request st)[recv_idx st := buf @ drop (length buf) (USB_Request st ! recv_idx st)])"
    using assms by (intro list_all_update) (auto simp: ring_slots_ok_def list_all_length)
  with assms show ?thesis
    by (auto simp: usbd_hid_set_report_def ring_slots_ok_def os_sem_wait_0_def memcpy_def
        split: hid_report_type.splits list.splits)
qed

lemma ring_slots_ok_get_report:
  "ring_slots_ok cfg (snd (snd (usbd_hid_get_report cfg rtype rid buf req st))) = ring_slots_ok cfg st"
  by (auto simp: usbd_hid_get_report_def ring_slots_ok_def os_sem_wait_0_def
      split: hid_report_type.splits hid_request.splits)

lemma ring_slots_ok_send_packet:
  "ring_slots_ok cfg (hid_send_packet cfg st) = ring_slots_ok cfg st"
  by (simp add: hid_send_packet_def ring_slots_ok_def os_sem_wait_0_def split: prod.splits)

lemma ring_slots_ok_notify: "ring_slots_ok cfg (hid_notify st) = ring_slots_ok cfg st"
  by (simp add: ring_slots_ok_def hid_notify_fields)

lemma ring_slots_ok_dispatch:
  assumes "ring_slots_ok cfg st"
  shows "ring_slots_ok cfg (snd (hid_dispatch cfg st))"
proof -
  have "list_all (\<lambda>p. length p = DAP_PACKET_SIZE cfg)
          ((USB_Request st)[proc_idx st := (USB_Request st ! proc_idx st)[1 := 0]])"
    using assms by (intro list_all_update) (auto simp: ring_slots_ok_def list_all_length)
  with assms show ?thesis
    by (auto simp: hid_dispatch_def Let_def ring_slots_ok_def dap_lock_operation_def
        split: option.splits bool.splits)
qed

lemma ring_slots_ok_run_command:
  assumes "ring_slots_ok cfg st" and "proc_idx st < length (USB_Request st)"
    and "handler_keeps_size cfg"
  shows "ring_slots_ok cfg (hid_run_command cfg st)"
proof -
  let ?r = "DAP_ExecuteCommand cfg (USB_Request st ! proc_idx st) (temp_buf st)"
  from assms(1,2) have "length (USB_Request st ! proc_idx st) = DAP_PACKET_SIZE cfg"
    and "length (temp_buf st) = DAP_PACKET_SIZE cfg"
    by (simp_all add: ring_slots_ok_def list_all_length)
  with assms(3) have r: "length ?r = DAP_PACKET_SIZE cfg"
    by (simp add: handler_keeps_size_def)
  have "list_all (\<lambda>p. length p = DAP_PACKET_SIZE cfg)
          ((USB_Request st)[proc_idx st := memcpy (USB_Request st ! proc_idx st) ?r (DAP_PACKET_SIZE cfg)])"
    using assms(1) r
    by (intro list_all_update) (auto simp: ring_slots_ok_def list_all_length memcpy_def)
  with assms(1) r show ?thesis
    by (simp add: hid_run_command_def Let_def ring_slots_ok_def)
qed

lemma ring_slots_ok_process:
  assumes "ring_slots_ok cfg st" and "ring_cursors_ok cfg st"
    and "handler_keeps_size cfg"
    and "hid_process_step cfg st = Some st'"
  shows "ring_slots_ok cfg st'"
proof -
  let ?s = "st\<lparr>proc_sem := proc_sem st - 1\<rparr>"
  let ?d = "snd (hid_dispatch cfg ?s)"
  from assms(4) have p: "0 < proc_sem st"
    using hid_process_step_defined [of cfg st] by blast
  with assms(2) have f: "ring_in_flight cfg ?s"
    by (auto simp: ring_cursors_ok_def ring_in_flight_def)
  from assms(1) have "ring_slots_ok cfg ?s"
    by (simp add: ring_slots_ok_def)
  then have d: "ring_slots_ok cfg ?d"
    by (rule ring_slots_ok_dispatch)
  from assms(4) have st': "st' = hid_notify (if fst (hid_dispatch cfg ?s)
       then hid_run_command cfg ?d else ?d)"
    by (auto simp: hid_process_step_def split: prod.splits if_splits)
  show ?thesis
  proof (cases "fst (hid_dispatch cfg ?s)")
    case True
    with ring_cursors_ok_dispatch [OF f] have "ring_in_flight cfg ?d"
      by simp
    then have pi: "proc_idx ?d < length (USB_Request ?d)"
      by (simp add: ring_in_flight_def)
    have "ring_slots_ok cfg (hid_run_command cfg ?d)"
      by (rule ring_slots_ok_run_command [OF d pi assms(3)])
    then have "ring_slots_ok cfg (hid_notify (hid_run_command cfg ?d))"
      by (simp add: ring_slots_ok_notify)
    with st' True show ?thesis
      by simp
  next
    case False
    from d have "ring_slots_ok cfg (hid_notify ?d)"
      by (simp add: ring_slots_ok_notify)
    with st' False show ?thesis
      by simp
  qed
qed

lemma ring_slots_ok_apply:
  assumes "ring_slots_ok cfg st" and "ring_cursors_ok cfg st"
    and "handler_keeps_size cfg"
    and "report_fits cfg a" and "hid_apply cfg a st = Some st'"
  shows "ring_slots_ok cfg st'"
proof (cases a)
  case (Set_Report rtype rid buf req)
  with assms(1,4,5) show ?thesis
    by (auto simp: hid_apply_def ring_slots_ok_set_report)
next
  case (Get_Report rtype rid buf req)
  with assms(1,5) show ?thesis
    by (auto simp: hid_apply_def ring_slots_ok_get_report)
next
  case Send_Packet
  with assms(1,5) show ?thesis
    by (auto simp: hid_apply_def ring_slots_ok_send_packet split: if_splits)
next
  case Process
  with assms(5) have "st' = st \<or> hid_process_step cfg st = Some st'"
    by (auto simp: hid_apply_def split: option.splits)
  with assms(1) ring_slots_ok_process [OF assms(1,2,3)] show ?thesis
    by blast
next
  case (Lock_Other i)
  with assms(1,5) show ?thesis
    by (auto simp: hid_apply_def ring_slots_ok_def)
next
  case (Unlock_Other i)
  with assms(1,5) show ?thesis
    by (auto simp: hid_apply_def ring_slots_ok_def)
qed

lemma ring_slots_ok_run:
  assumes "handler_keeps_size cfg"
    and "ring_slots_ok cfg st" and "ring_cursors_ok cfg st"
    and "list_all (report_fits cfg) ops"
  shows "ring_slots_ok cfg (hid_run cfg ops st)"
  using assms(2,3,4)
proof (induction ops arbitrary: st)
  case Nil
  then show ?case by simp
next
  case (Cons a ops)
  show ?case
  proof (cases "hid_apply cfg a st")
    case None
    with Cons.prems show ?thesis by simp
  next
    case (Some st')
    from Cons.prems have "report_fits cfg a"
      by simp
    from ring_slots_ok_apply [OF Cons.prems(1,2) assms(1) this Some]
    have "ring_slots_ok cfg st'" .
    moreover from Cons.prems(2) Some have "ring_cursors_ok cfg st'"
      by (rule ring_cursors_ok_apply)
    ultimately show ?thesis
      using Cons.IH Cons.prems Some by simp
  qed
qed

lemma ring_slots_ok_reachable:
  assumes "handler_keeps_size cfg"
    and "0 < DAP_PACKET_COUNT cfg" and "length (USB_Request st) = DAP_PACKET_COUNT cfg"
    and "ring_slots_ok cfg st" and "list_all (report_fits cfg) ops"
  shows "ring_slots_ok cfg (hid_run cfg ops (usbd_hid_init cfg st))"
proof -
  from assms(4) have "ring_slots_ok cfg (usbd_hid_init cfg st)"
    by (simp add: ring_slots_ok_def usbd_hid_init_def)
  moreover from assms(2,3) have "ring_cursors_ok cfg (usbd_hid_init cfg st)"
    by (rule ring_cursors_ok_init)
  ultimately show ?thesis
    using assms(1,5) by (intro ring_slots_ok_run)
qed

lemma ring_slots_ok_recv_slot:
  assumes "ring_slots_ok cfg st" and "ring_cursors_ok cfg st"
    and "recv_idx st < DAP_PACKET_COUNT cfg"
  shows "length (USB_Request st ! recv_idx st) = DAP_PACKET_SIZE cfg"
  using assms by (simp add: ring_slots_ok_def ring_cursors_ok_def list_all_length)

lemma cfg4_handler_keeps_size: "handler_keeps_size cfg4"
  by (simp add: handler_keeps_size_def cfg4_def)

lemmas run_defs = hid_apply_def usbd_hid_set_report_def usbd_hid_get_report_def
  hid_send_packet_def hid_defs cfg4_def hid_boot_def

text \<open>
  Claim C7. A packet that is not the abort identifier, arriving while \<open>free_sem = 0\<close>, is
  dropped: the assertion failure is the only change to the state, so cursors, counters,
  slots and the queue of uncompleted requests are as before. A later packet of at most
  \<^verbatim>\<open>DAP_PACKET_SIZE\<close> bytes that finds a free token takes it, is copied into the slot at
  the receive cursor without leaving that slot, advances the receive cursor by one
  slot and adds a token to \<open>proc_sem\<close>; in the queue of uncompleted requests it comes
  last, behind the requests accepted before it, which keep their places.
\<close>

theorem usbd_hid_set_report_full_ring:
  assumes "free_sem st = 0" and "b \<noteq> ID_DAP_TransferAbort cfg"
    and "0 < free_sem st_next" and "c \<noteq> ID_DAP_TransferAbort cfg"
    and "ring_cursors_ok cfg st_next" and "recv_idx st_next < DAP_PACKET_COUNT cfg"
    and "length (c # cs) \<le> DAP_PACKET_SIZE cfg"
    and "length (USB_Request st_next ! recv_idx st_next) = DAP_PACKET_SIZE cfg"
  shows "usbd_hid_set_report cfg HID_REPORT_OUTPUT rid (b # bs) req st
           = st\<lparr>events := events st @ [Assert_Failed]\<rparr> \<and>
         uncompleted_requests cfg (usbd_hid_set_report cfg HID_REPORT_OUTPUT rid (b # bs) req st)
           = uncompleted_requests cfg st \<and>
         usbd_hid_set_report cfg HID_REPORT_OUTPUT rid_next (c # cs) req_next st_next
           = st_next\<lparr>free_sem := free_sem st_next - 1,
                USB_Request := (USB_Request st_next)
                  [recv_idx st_next :=
                     (c # cs) @ drop (length (c # cs)) (USB_Request st_next ! recv_idx st_next)],
                recv_idx := (recv_idx st_next + 1) mod DAP_PACKET_COUNT cfg,
                proc_sem := proc_sem st_next + 1\<rparr> \<and>
         length ((c # cs) @ drop (length (c # cs)) (USB_Request st_next ! recv_idx st_next))
           = DAP_PACKET_SIZE cfg \<and>
         uncompleted_requests cfg
             (usbd_hid_set_report cfg HID_REPORT_OUTPUT rid_next (c # cs) req_next st_next)
           = uncompleted_requests cfg st_next
               @ [(c # cs) @ drop (length (c # cs)) (USB_Request st_next ! recv_idx st_next)]"
proof -
  have a: "usbd_hid_set_report cfg HID_REPORT_OUTPUT rid (b # bs) req st
           = st\<lparr>events := events st @ [Assert_Failed]\<rparr>"
    by (rule set_report_overflow [OF assms(1,2)])
  have b: "uncompleted_requests cfg (st\<lparr>events := events st @ [Assert_Failed]\<rparr>)
           = uncompleted_requests cfg st"
    by (simp add: uncompleted_requests_def)
  note c = set_report_accept [OF assms(3,4), where bs = cs and rid = rid_next and req = req_next]
  have d: "length ((c # cs) @ drop (length (c # cs)) (USB_Request st_next ! recv_idx st_next))
           = DAP_PACKET_SIZE cfg"
    using assms(7,8) by simp
  note e = uncompleted_requests_accept [OF assms(3,4,5,6), where bs = cs and rid = rid_next
      and req = req_next]
  from a b c d e show ?thesis
    by (simp only: simp_thms)
qed

theorem usbd_hid_set_report_full_ring_witness:
  "hid_run cfg4
     [Set_Report HID_REPORT_OUTPUT 0 [0, 1, 0, 0] USBD_HID_REQ_OTHER,
      Set_Report HID_REPORT_OUTPUT 0 [0, 2, 0, 0] USBD_HID_REQ_OTHER,
      Set_Report HID_REPORT_OUTPUT 0 [0, 3, 0, 0] USBD_HID_REQ_OTHER,
      Set_Report HID_REPORT_OUTPUT 0 [3, 0, 0, 0] USBD_HID_REQ_OTHER,
      Process, Process, Process, Process]
     (hid_boot None) = hid_leaked \<and>
   free_sem hid_leaked = 0 \<and>
   uncompleted_requests cfg4 hid_leaked = [[3, 0, 0, 0]] \<and>
   usbd_hid_set_report cfg4 HID_REPORT_OUTPUT 0 [5, 6, 7, 8] USBD_HID_REQ_OTHER hid_leaked
     = hid_leaked\<lparr>events := events hid_leaked @ [Assert_Failed]\<rparr> \<and>
   snd (snd (usbd_hid_get_report cfg4 HID_REPORT_INPUT 0 [] USBD_HID_REQ_EP_INT
      (hid_leaked\<lparr>events := events hid_leaked @ [Assert_Failed]\<rparr>)))
     = hid_leaked\<lparr>events := events hid_leaked @ [Assert_Failed],
                  send_sem := 2, send_idx := 1, free_sem := 1\<rparr> \<and>
   usbd_hid_set_report cfg4 HID_REPORT_OUTPUT 0 [9, 9, 9, 9] USBD_HID_REQ_OTHER
      (hid_leaked\<lparr>events := events hid_leaked @ [Assert_Failed],
                  send_sem := 2, send_idx := 1, free_sem := 1\<rparr>)
     = hid_leaked\<lparr>events := events hid_leaked @ [Assert_Failed],
                  send_sem := 2, send_idx := 1, free_sem := 0,
                  USB_Request := [[9, 9, 9, 9], [0, 0, 0, 0], [0, 0, 0, 0], [3, 0, 0, 0]],
                  recv_idx := 1, proc_sem := 1\<rparr> \<and>
   uncompleted_requests cfg4
      (usbd_hid_set_report cfg4 HID_REPORT_OUTPUT 0 [9, 9, 9, 9] USBD_HID_REQ_OTHER
         (hid_leaked\<lparr>events := events hid_leaked @ [Assert_Failed],
                     send_sem := 2, send_idx := 1, free_sem := 1\<rparr>))
     = [[3, 0, 0, 0], [9, 9, 9, 9]]"
proof -
  let ?d = "hid_leaked\<lparr>events := events hid_leaked @ [Assert_Failed]\<rparr>"
  let ?n = "hid_leaked\<lparr>events := events hid_leaked @ [Assert_Failed],
                  send_sem := 2, send_idx := 1, free_sem := 1\<rparr>"
  have reach: "hid_run cfg4
     [Set_Report HID_REPORT_OUTPUT 0 [0, 1, 0, 0] USBD_HID_REQ_OTHER,
      Set_Report HID_REPORT_OUTPUT 0 [0, 2, 0, 0] USBD_HID_REQ_OTHER,
      Set_Report HID_REPORT_OUTPUT 0 [0, 3, 0, 0] USBD_HID_REQ_OTHER,
      Set_Report HID_REPORT_OUTPUT 0 [3, 0, 0, 0] USBD_HID_REQ_OTHER,
      Process, Process, Process, Process]
     (hid_boot None) = hid_leaked"
    by (simp add: run_defs hid_leaked_def)
  have h1: "free_sem hid_leaked = 0"
    by (simp add: hid_leaked_def)
  have h2: "(5 :: byte) \<noteq> ID_DAP_TransferAbort cfg4"
    by (simp add: cfg4_def)
  have h3: "0 < free_sem ?n"
    by simp
  have h4: "(9 :: byte) \<noteq> ID_DAP_TransferAbort cfg4"
    by (simp add: cfg4_def)
  have h5: "ring_cursors_ok cfg4 ?n"
    by (simp add: ring_cursors_ok_def hid_leaked_def cfg4_def)
  have h6: "recv_idx ?n < DAP_PACKET_COUNT cfg4"
    by (simp add: hid_leaked_def cfg4_def)
  have h7: "length [9, 9, 9, 9 :: byte] \<le> DAP_PACKET_SIZE cfg4"
    by (simp add: cfg4_def)
  have h8: "length (USB_Request ?n ! recv_idx ?n) = DAP_PACKET_SIZE cfg4"
    by (simp add: hid_leaked_def cfg4_def)
  have u: "uncompleted_requests cfg4 hid_leaked = [[3, 0, 0, 0]]"
    by (simp add: uncompleted_requests_def hid_leaked_def cfg4_def)
  have un: "uncompleted_requests cfg4 ?n = [[3, 0, 0, 0]]"
    by (simp add: uncompleted_requests_def hid_leaked_def cfg4_def)
  have g: "snd (snd (usbd_hid_get_report cfg4 HID_REPORT_INPUT 0 [] USBD_HID_REQ_EP_INT ?d)) = ?n"
    by (simp add: usbd_hid_get_report_def os_sem_wait_0_def os_sem_send_def hid_leaked_def cfg4_def)
  note t = usbd_hid_set_report_full_ring [OF h1 h2 h3 h4 h5 h6 h7 h8, where bs = "[6, 7, 8]"
      and rid = 0 and req = USBD_HID_REQ_OTHER and rid_next = 0 and req_next = USBD_HID_REQ_OTHER]
  from t have t1: "usbd_hid_set_report cfg4 HID_REPORT_OUTPUT 0 [5, 6, 7, 8] USBD_HID_REQ_OTHER hid_leaked = ?d"
    by blast
  from t have t3: "usbd_hid_set_report cfg4 HID_REPORT_OUTPUT 0 [9, 9, 9, 9] USBD_HID_REQ_OTHER ?n
     = ?n\<lparr>free_sem := free_sem ?n - 1,
                USB_Request := (USB_Request ?n)
                  [recv_idx ?n := [9, 9, 9, 9] @ drop (length [9, 9, 9, 9 :: byte]) (USB_Request ?n ! recv_idx ?n)],
                recv_idx := (recv_idx ?n + 1) mod DAP_PACKET_COUNT cfg4,
                proc_sem := proc_sem ?n + 1\<rparr>"
    by blast
  from t have t5: "uncompleted_requests cfg4
       (usbd_hid_set_report cfg4 HID_REPORT_OUTPUT 0 [9, 9, 9, 9] USBD_HID_REQ_OTHER ?n)
     = uncompleted_requests cfg4 ?n
         @ [[9, 9, 9, 9] @ drop (length [9, 9, 9, 9 :: byte]) (USB_Request ?n ! recv_idx ?n)]"
    by blast
  from t3 have t3': "usbd_hid_set_report cfg4 HID_REPORT_OUTPUT 0 [9, 9, 9, 9] USBD_HID_REQ_OTHER ?n
     = hid_leaked\<lparr>events := events hid_leaked @ [Assert_Failed],
                  send_sem := 2, send_idx := 1, free_sem := 0,
                  USB_Request := [[9, 9, 9, 9], [0, 0, 0, 0], [0, 0, 0, 0], [3, 0, 0, 0]],
                  recv_idx := 1, proc_sem := 1\<rparr>"
    by (simp add: hid_leaked_def cfg4_def)
  from t5 un have t5': "uncompleted_requests cfg4
       (usbd_hid_set_report cfg4 HID_REPORT_OUTPUT 0 [9, 9, 9, 9] USBD_HID_REQ_OTHER ?n)
     = [[3, 0, 0, 0], [9, 9, 9, 9]]"
    by (simp add: hid_leaked_def)
  from reach h1 u t1 g t3' t5' show ?thesis
    by (simp only: simp_thms)
qed

text \<open>
  Claim C3, as amended. \<^verbatim>\<open>usbd_hid_init\<close> establishes
  \<open>free_sem + proc_sem + send_sem = DAP_PACKET_COUNT\<close>, and the equation is preserved by
  \<^verbatim>\<open>usbd_hid_set_report\<close>, by \<^verbatim>\<open>usbd_hid_get_report\<close>, by \<^verbatim>\<open>hid_send_packet\<close> when a
  reply is ready, and by every iteration of the worker that completes its packet (an
  Info, a Connect, or any command while the transport holds the session lock).
\<close>

theorem ring_sum_preserved:
  assumes "ring_sum st = DAP_PACKET_COUNT cfg"
  shows "ring_sum (usbd_hid_init cfg st0) = DAP_PACKET_COUNT cfg \<and>
     ring_sum (usbd_hid_set_report cfg rtype rid buf req st) = DAP_PACKET_COUNT cfg \<and>
     ring_sum (snd (snd (usbd_hid_get_report cfg rtype' rid' buf' req' st))) = DAP_PACKET_COUNT cfg \<and>
     (0 < send_sem st \<longrightarrow> ring_sum (hid_send_packet cfg st) = DAP_PACKET_COUNT cfg) \<and>
     (hid_process_step cfg st = Some st' \<and>
        (proc_cmd st = ID_DAP_Info cfg \<or> proc_cmd st = ID_DAP_Connect cfg
           \<or> dap_lock st = Some (DAP_LOCK_OPERATION_HID_DEBUG cfg)) \<longrightarrow>
        ring_sum st' = DAP_PACKET_COUNT cfg)"
  using assms ring_sum_process_step [of cfg st st']
  by (auto simp: ring_sum_init ring_sum_set_report ring_sum_get_report ring_sum_send_packet)

theorem ring_sum_preserved_witness:
  "ring_sum hid_full = DAP_PACKET_COUNT cfg4 \<and>
   ring_sum (usbd_hid_init cfg4 hid_full) = DAP_PACKET_COUNT cfg4 \<and>
   ring_sum (usbd_hid_set_report cfg4 HID_REPORT_OUTPUT 0 [5, 6, 7, 8] USBD_HID_REQ_OTHER hid_full)
     = DAP_PACKET_COUNT cfg4 \<and>
   ring_sum (snd (snd (usbd_hid_get_report cfg4 HID_REPORT_INPUT 0 [] USBD_HID_REQ_EP_INT hid_full)))
     = DAP_PACKET_COUNT cfg4 \<and>
   ring_sum (hid_send_packet cfg4 hid_full) = DAP_PACKET_COUNT cfg4 \<and>
   (\<exists>st'. hid_process_step cfg4 hid_full = Some st' \<and> ring_sum st' = DAP_PACKET_COUNT cfg4)"
proof -
  have h: "ring_sum hid_full = DAP_PACKET_COUNT cfg4"
    by (simp add: ring_sum_def hid_full_def cfg4_def)
  have s: "0 < send_sem hid_full"
    by (simp add: hid_full_def)
  have c: "proc_cmd hid_full = ID_DAP_Info cfg4"
    by (simp add: proc_cmd_def hid_full_def cfg4_def)
  have "0 < proc_sem hid_full"
    by (simp add: hid_full_def)
  then obtain st' where p: "hid_process_step cfg4 hid_full = Some st'"
    using hid_process_step_defined [of cfg4 hid_full] by blast
  note t = ring_sum_preserved [OF h, where ?st0.0 = hid_full and rtype = HID_REPORT_OUTPUT
      and rid = 0 and buf = "[5, 6, 7, 8]" and req = USBD_HID_REQ_OTHER
      and rtype' = HID_REPORT_INPUT and rid' = 0 and buf' = "[]" and req' = USBD_HID_REQ_EP_INT
      and st' = st']
  from t s p c have "ring_sum (hid_send_packet cfg4 hid_full) = DAP_PACKET_COUNT cfg4"
    and "ring_sum st' = DAP_PACKET_COUNT cfg4"
    by blast+
  with t h p show ?thesis
    by blast
qed

text \<open>
  Claim C3 as stated fails. After start-up a Disconnect is received while nobody holds
  the session lock; the counters sum to 4. The worker's iteration takes the token of
  \<open>proc_sem\<close> and discards the packet without giving a token to any semaphore: the sum
  is 3.
\<close>

theorem ring_sum_discard_counterexample:
  "usbd_hid_set_report cfg4 HID_REPORT_OUTPUT 0 [3, 0, 0, 0] USBD_HID_REQ_OTHER
      (usbd_hid_init cfg4 (hid_boot None)) = hid_received None [3, 0, 0, 0] \<and>
   DAP_PACKET_COUNT cfg4 = 4 \<and>
   ring_sum (hid_received None [3, 0, 0, 0]) = 4 \<and>
   map_option ring_sum (hid_process_step cfg4 (hid_received None [3, 0, 0, 0])) = Some 3"
  by (simp add: usbd_hid_set_report_def usbd_hid_init_def hid_boot_def hid_received_def
      cfg4_def ring_sum_def hid_defs)

text \<open>
  After the handler has run, the session lock is released exactly when the slot at the
  advanced process cursor starts with the Disconnect identifier.
\<close>

lemma hid_run_command_lock:
  "dap_lock (hid_run_command cfg st) =
     (if ID_DAP_Disconnect cfg =
           (USB_Request st)
             [proc_idx st := memcpy (USB_Request st ! proc_idx st)
                (DAP_ExecuteCommand cfg (USB_Request st ! proc_idx st) (temp_buf st))
                (DAP_PACKET_SIZE cfg)]
           ! ((proc_idx st + 1) mod DAP_PACKET_COUNT cfg) ! 0
      then None else dap_lock st)"
  by (simp add: hid_run_command_def Let_def dap_unlock_operation_def)

text \<open>
  Claim C1, at a concrete input. From start-up the transport (identity 1) connects, its
  reply is fetched, and a Disconnect arrives: the first equation is the state in which
  the worker finds it, with the session lock held by identity 1. The iteration runs the
  handler and signals the reply, then tests byte 0 of the slot at the cursor it has
  already advanced (line 228). That slot holds zeros, so the lock is not released: in the
  second state it is still held by identity 1, for which a verify succeeds.
\<close>

theorem hid_process_disconnect_keeps_lock:
  "hid_run cfg4
     [Set_Report HID_REPORT_OUTPUT 0 [2, 1, 0, 0] USBD_HID_REQ_OTHER, Process,
      Get_Report HID_REPORT_INPUT 0 [] USBD_HID_REQ_EP_INT,
      Set_Report HID_REPORT_OUTPUT 0 [3, 0, 0, 0] USBD_HID_REQ_OTHER]
     (hid_boot None)
   = \<lparr>temp_buf = [2, 0, 0, 0],
      USB_Request = [[2, 0, 0, 0], [3, 0, 0, 0], [0, 0, 0, 0], [0, 0, 0, 0]],
      free_sem = 3, proc_sem = 1, send_sem = 0,
      recv_idx = 2, proc_idx = 1, send_idx = 1,
      USB_ResponseIdle = 0, DAP_TransferAbort = 0,
      dap_lock = Some 1,
      events = [Execute_Command [2, 1, 0, 0], Send_Event, Blink_Led_Off]\<rparr> \<and>
   ID_DAP_Disconnect cfg4 = 3 \<and> DAP_LOCK_OPERATION_HID_DEBUG cfg4 = 1 \<and>
   hid_run cfg4
     [Set_Report HID_REPORT_OUTPUT 0 [2, 1, 0, 0] USBD_HID_REQ_OTHER, Process,
      Get_Report HID_REPORT_INPUT 0 [] USBD_HID_REQ_EP_INT,
      Set_Report HID_REPORT_OUTPUT 0 [3, 0, 0, 0] USBD_HID_REQ_OTHER, Process]
     (hid_boot None)
   = \<lparr>temp_buf = [3, 0, 0, 0],
      USB_Request = [[2, 0, 0, 0], [3, 0, 0, 0], [0, 0, 0, 0], [0, 0, 0, 0]],
      free_sem = 3, proc_sem = 0, send_sem = 1,
      recv_idx = 2, proc_idx = 2, send_idx = 1,
      USB_ResponseIdle = 0, DAP_TransferAbort = 0,
      dap_lock = Some 1,
      events = [Execute_Command [2, 1, 0, 0], Send_Event, Blink_Led_Off,
                Execute_Command [3, 0, 0, 0], Blink_Led_Off]\<rparr> \<and>
   dap_lock_verify_operation 1 (Some 1)"
  by (simp add: run_defs)

end
